theory Spec2Isabelle
  imports Complex_Main
begin

section \<open>JavaScript numbers\<close>

text \<open>
  The hook computes with JavaScript \<^verbatim>\<open>number\<close>s. A number is modelled as NaN, an
  infinity or a finite real. Arithmetic on finite values is exact: the rounding of IEEE
  doubles and the sign of zero are not part of this model (a zero divisor counts as +0),
  so every equation below is an equation of exact arithmetic.
\<close>

datatype jsnum = NaN | NegInf | Fin real | PosInf

fun js_neg :: "jsnum \<Rightarrow> jsnum" where
  "js_neg NaN = NaN"
| "js_neg NegInf = PosInf"
| "js_neg PosInf = NegInf"
| "js_neg (Fin a) = Fin (- a)"

fun js_add :: "jsnum \<Rightarrow> jsnum \<Rightarrow> jsnum" where
  "js_add NaN y = NaN"
| "js_add x NaN = NaN"
| "js_add (Fin a) (Fin b) = Fin (a + b)"
| "js_add PosInf NegInf = NaN"
| "js_add NegInf PosInf = NaN"
| "js_add PosInf y = PosInf"
| "js_add NegInf y = NegInf"
| "js_add (Fin a) y = y"

definition js_sub :: "jsnum \<Rightarrow> jsnum \<Rightarrow> jsnum" where
  "js_sub x y = js_add x (js_neg y)"

text \<open>The sign of a non-NaN number: \<open>-1\<close>, \<open>0\<close> or \<open>1\<close>.\<close>

fun js_sign :: "jsnum \<Rightarrow> int" where
  "js_sign NaN = 0"
| "js_sign NegInf = - 1"
| "js_sign PosInf = 1"
| "js_sign (Fin a) = (if a < 0 then - 1 else if a = 0 then 0 else 1)"

definition signed_inf :: "int \<Rightarrow> jsnum" where
  "signed_inf k = (if k < 0 then NegInf else if k = 0 then NaN else PosInf)"

fun js_mul :: "jsnum \<Rightarrow> jsnum \<Rightarrow> jsnum" where
  "js_mul NaN y = NaN"
| "js_mul x NaN = NaN"
| "js_mul (Fin a) (Fin b) = Fin (a * b)"
| "js_mul x y = signed_inf (js_sign x * js_sign y)"

fun js_div :: "jsnum \<Rightarrow> jsnum \<Rightarrow> jsnum" where
  "js_div NaN y = NaN"
| "js_div x NaN = NaN"
| "js_div (Fin a) (Fin b) =
     (if b = 0 then signed_inf (js_sign (Fin a)) else Fin (a / b))"
| "js_div (Fin a) y = Fin 0"
| "js_div x (Fin b) = signed_inf (js_sign x * (if b < 0 then - 1 else 1))"
| "js_div x y = NaN"

text \<open>\<^verbatim>\<open>x < y\<close> and \<^verbatim>\<open>x === y\<close>: both are false as soon as one side is NaN.\<close>

fun js_lt :: "jsnum \<Rightarrow> jsnum \<Rightarrow> bool" where
  "js_lt NaN y = False"
| "js_lt x NaN = False"
| "js_lt (Fin a) (Fin b) = (a < b)"
| "js_lt x NegInf = False"
| "js_lt PosInf y = False"
| "js_lt NegInf y = True"
| "js_lt x PosInf = True"

definition js_seq :: "jsnum \<Rightarrow> jsnum \<Rightarrow> bool" where
  "js_seq x y = (x \<noteq> NaN \<and> x = y)"

definition Number_isNaN :: "jsnum \<Rightarrow> bool" where
  "Number_isNaN x = (x = NaN)"

text \<open>\<^verbatim>\<open>Math.min\<close> and \<^verbatim>\<open>Math.max\<close> of two arguments: NaN as soon as one is.\<close>

definition Math_min :: "jsnum \<Rightarrow> jsnum \<Rightarrow> jsnum" where
  "Math_min x y = (if x = NaN \<or> y = NaN then NaN else if js_lt y x then y else x)"

definition Math_max :: "jsnum \<Rightarrow> jsnum \<Rightarrow> jsnum" where
  "Math_max x y = (if x = NaN \<or> y = NaN then NaN else if js_lt x y then y else x)"

text \<open>
  \<^verbatim>\<open>Math.min\<close> and \<^verbatim>\<open>Math.max\<close> of the arguments \<open>xs\<close>, as many as there are: with no
  argument they are \<^verbatim>\<open>Infinity\<close> and \<^verbatim>\<open>-Infinity\<close>.
\<close>

definition Math_min_args :: "jsnum list \<Rightarrow> jsnum" where
  "Math_min_args xs = foldl Math_min PosInf xs"

definition Math_max_args :: "jsnum list \<Rightarrow> jsnum" where
  "Math_max_args xs = foldl Math_max NegInf xs"

text \<open>
  The two errors of the platform that the hook can meet: the \<^verbatim>\<open>InvalidStateError\<close> of
  \<^verbatim>\<open>node.stop\<close>, which it catches, and the \<^verbatim>\<open>RangeError\<close> of a call with too many
  arguments, which it does not.
\<close>

datatype js_error = InvalidStateError | RangeError

text \<open>
  The spread calls \<^verbatim>\<open>Math.min(...xs)\<close> and \<^verbatim>\<open>Math.max(...xs)\<close> pass every element of the
  array as one argument. An engine takes only so many arguments in one call, \<open>maxArgs\<close> here
  (the number depends on the engine and on its stack); with more the call throws a
  \<^verbatim>\<open>RangeError\<close>.
\<close>

definition Math_min_spread :: "nat \<Rightarrow> jsnum list \<Rightarrow> js_error + jsnum" where
  "Math_min_spread maxArgs xs = (if maxArgs < length xs then Inl RangeError else Inr (Math_min_args xs))"

definition Math_max_spread :: "nat \<Rightarrow> jsnum list \<Rightarrow> js_error + jsnum" where
  "Math_max_spread maxArgs xs = (if maxArgs < length xs then Inl RangeError else Inr (Math_max_args xs))"

fun Math_floor :: "jsnum \<Rightarrow> jsnum" where
  "Math_floor (Fin a) = Fin (of_int \<lfloor>a\<rfloor>)"
| "Math_floor x = x"

text \<open>\<^verbatim>\<open>Math.pow(2, x)\<close>, the only power the hook takes.\<close>

fun Math_pow2 :: "jsnum \<Rightarrow> jsnum" where
  "Math_pow2 NaN = NaN"
| "Math_pow2 NegInf = Fin 0"
| "Math_pow2 PosInf = PosInf"
| "Math_pow2 (Fin a) = Fin (2 powr a)"

text \<open>\<^verbatim>\<open>x || y\<close> on numbers: \<open>y\<close> when \<open>x\<close> is falsy, that is \<open>0\<close> or NaN.\<close>

definition js_truthy :: "jsnum \<Rightarrow> bool" where
  "js_truthy x = (x \<noteq> NaN \<and> x \<noteq> Fin 0)"

definition js_or :: "jsnum \<Rightarrow> jsnum \<Rightarrow> jsnum" where
  "js_or x y = (if js_truthy x then x else y)"

text \<open>
  \<^verbatim>\<open>xs[i]\<close> on an array of numbers: \<^verbatim>\<open>undefined\<close> (here \<open>None\<close>) unless \<open>i\<close> is an
  integer index inside the array. In arithmetic \<^verbatim>\<open>undefined\<close> becomes NaN.
\<close>

definition js_index :: "real list \<Rightarrow> jsnum \<Rightarrow> real option" where
  "js_index xs i =
     (case i of
        Fin r \<Rightarrow>
          (if r = of_int \<lfloor>r\<rfloor> \<and> 0 \<le> r \<and> nat \<lfloor>r\<rfloor> < length xs
           then Some (xs ! nat \<lfloor>r\<rfloor>) else None)
      | _ \<Rightarrow> None)"

definition to_number :: "real option \<Rightarrow> jsnum" where
  "to_number v = (case v of None \<Rightarrow> NaN | Some r \<Rightarrow> Fin r)"

section \<open>The parameter mapper\<close>

text \<open>
  \<^verbatim>\<open>mapRange\<close> is the same function in both versions of the hook:
  \<^verbatim>\<open>
  if (Number.isNaN(value)) return outMin;
  const clamped = Math.min(inMax, Math.max(inMin, value));
  const norm = inMax === inMin ? 0 : (clamped - inMin) / (inMax - inMin);
  return outMin + norm * (outMax - outMin);
  \<close>
\<close>

definition mapRange :: "jsnum \<Rightarrow> jsnum \<Rightarrow> jsnum \<Rightarrow> jsnum \<Rightarrow> jsnum \<Rightarrow> jsnum" where
  "mapRange value inMin inMax outMin outMax =
     (if Number_isNaN value then outMin
      else
        let clamped = Math_min inMax (Math_max inMin value);
            norm = (if js_seq inMax inMin then Fin 0
                    else js_div (js_sub clamped inMin) (js_sub inMax inMin))
        in js_add outMin (js_mul norm (js_sub outMax outMin)))"



section \<open>Events, options and the voice parameters\<close>

text \<open>
  An \<^verbatim>\<open>EarthquakeFeature\<close>: \<^verbatim>\<open>properties.mag\<close>, \<^verbatim>\<open>properties.time\<close> (Unix ms),
  \<^verbatim>\<open>properties.place\<close> and \<^verbatim>\<open>geometry.coordinates = [lon, lat, depthKm]\<close>.
\<close>

record feature =
  f_mag :: jsnum
  f_time :: jsnum
  f_place :: string
  f_coordinates :: "jsnum \<times> jsnum \<times> jsnum"

text \<open>
  The hook's options. \<open>features\<close> is \<open>None\<close> for \<^verbatim>\<open>null\<close>; \<open>durationSec\<close> is \<open>None\<close> when
  the caller leaves it out (the default is 60); \<open>onEvent\<close> says whether a callback was
  supplied (the callback itself belongs to the caller).
\<close>

record options =
  features :: "feature list option"
  durationSec :: "jsnum option"
  onEvent :: bool

definition durationSec_of :: "options \<Rightarrow> jsnum" where
  "durationSec_of opts = (case durationSec opts of None \<Rightarrow> Fin 60 | Some d \<Rightarrow> d)"

text \<open>The local constants of \<^verbatim>\<open>scheduleEventVoice\<close>, one definition each.\<close>

definition magClamped :: "jsnum \<Rightarrow> jsnum" where
  "magClamped m = Math_max (Fin 0) (Math_min (Fin 7) (js_or m (Fin 0)))"

definition depthClamped :: "jsnum \<Rightarrow> jsnum" where
  "depthClamped d = Math_max (Fin 0) (Math_min (Fin 700) (js_or d (Fin 0)))"

definition panPos :: "jsnum \<Rightarrow> jsnum" where
  "panPos la = mapRange la (Fin (- 90)) (Fin 90) (Fin (- 0.9)) (Fin 0.9)"

definition root_freq :: jsnum where
  "root_freq = Fin 196"

definition scaleSemis :: "real list" where
  "scaleSemis = [0, 2, 4, 7, 9]"

definition idx :: "jsnum \<Rightarrow> jsnum" where
  "idx m =
     Math_floor
       (mapRange (magClamped m) (Fin 0) (Fin 7) (Fin 0)
          (js_sub (Fin (real (length scaleSemis))) (Fin 0.001)))"

definition semis :: "jsnum \<Rightarrow> real option" where
  "semis m = js_index scaleSemis (idx m)"

definition freq :: "jsnum \<Rightarrow> jsnum" where
  "freq m = js_mul root_freq (Math_pow2 (js_div (to_number (semis m)) (Fin 12)))"

definition peakGain :: "jsnum \<Rightarrow> jsnum" where
  "peakGain m = mapRange (magClamped m) (Fin 0) (Fin 7) (Fin 0.03) (Fin 0.18)"

definition attack :: jsnum where "attack = Fin 0.8"
definition release :: jsnum where "release = Fin 5.0"
definition nAttack :: jsnum where "nAttack = Fin 0.6"
definition nRelease :: jsnum where "nRelease = Fin 3.5"

definition safeStart :: "jsnum \<Rightarrow> jsnum \<Rightarrow> jsnum" where
  "safeStart cur t = Math_max cur (js_sub t (Fin 0.02))"

definition centerFreq :: "jsnum \<Rightarrow> jsnum" where
  "centerFreq d = mapRange (depthClamped d) (Fin 0) (Fin 700) (Fin 9000) (Fin 600)"

definition noisePeak :: "jsnum \<Rightarrow> jsnum" where
  "noisePeak m = mapRange (magClamped m) (Fin 0) (Fin 7) (Fin 0.01) (Fin 0.06)"

section \<open>The engine state\<close>

text \<open>
  The commands the hook issues on an \<^verbatim>\<open>AudioParam\<close>. The platform runs them on the audio
  clock; the hook never reads their effect back, except for \<^verbatim>\<open>param.value\<close> when it
  pins the current value (\<open>SetCurrentValueAtTime t\<close> is
  \<^verbatim>\<open>setValueAtTime(param.value, t)\<close>). \<open>AssignValue v\<close> is \<^verbatim>\<open>param.value = v\<close>.
\<close>

datatype automation =
    AssignValue jsnum
  | CancelScheduledValues jsnum
  | SetValueAtTime jsnum jsnum
  | SetCurrentValueAtTime jsnum
  | LinearRampToValueAtTime jsnum jsnum

text \<open>
  An \<^verbatim>\<open>AudioScheduledSourceNode\<close> (oscillator or buffer source): the time given to
  \<^verbatim>\<open>start\<close> and the time last given to \<^verbatim>\<open>stop\<close>, if any. A node is named by its
  position in the table of all nodes created.
\<close>

record source =
  startAt :: "jsnum option"
  stopAt :: "jsnum option"

datatype ctx_state = Suspended | Running

record AudioContext =
  ctxState :: ctx_state
  currentTime :: real

text \<open>
  \<^verbatim>\<open>DroneNodes\<close>: the three oscillators and the automation issued on the main gain. The
  filter, the panner, the delay and the reverb are built once with constant settings and
  never touched again; they are left out.
\<close>

record DroneNodes =
  oscs :: "nat list"
  gain :: "automation list"

text \<open>What one call of \<^verbatim>\<open>scheduleEventVoice\<close> builds.\<close>

record voice =
  v_time :: jsnum
  v_pan :: jsnum
  v_idx :: jsnum
  v_freq :: jsnum
  v_osc :: nat
  v_peakGain :: jsnum
  v_voiceGain :: "automation list"
  v_centerFreq :: jsnum
  v_noiseSource :: nat
  v_noisePeak :: jsnum
  v_noiseGain :: "automation list"

text \<open>What a pending timer of \<^verbatim>\<open>window.setTimeout\<close> will run.\<close>

datatype callback = OnEvent feature | EndOfPlayback

text \<open>
  The refs and the state of the hook, followed by the part of the platform it acts on:
  the nodes created, the voices built, the pending timers (identifier, delay in ms,
  callback), the next timer identifier, and the calls of \<^verbatim>\<open>onEvent\<close> made so far, each
  with the identifier of the timer that made it. Two facts about the platform never
  change: whether it has an \<^verbatim>\<open>AudioContext\<close> (\<open>isSupported\<close>), and how many arguments
  its engine takes in one call (\<open>argLimit\<close>).
\<close>

record engine =
  isSupported :: bool
  argLimit :: nat
  isPlaying :: bool
  audioCtxRef :: "AudioContext option"
  droneRef :: "DroneNodes option"
  endTimeoutRef :: "nat option"
  transientNodesRef :: "nat list"
  noiseBufferRef :: bool
  reverbBufferRef :: bool
  visualTimeoutsRef :: "nat list"
  sources :: "source list"
  voices :: "voice list"
  timers :: "(nat \<times> jsnum \<times> callback) list"
  nextTimerId :: nat
  notified :: "(nat \<times> feature) list"

text \<open>
  The hook as mounted: nothing created, nothing pending. Timer identifiers are positive
  integers, so the first is 1.
\<close>

definition init :: "bool \<Rightarrow> nat \<Rightarrow> engine" where
  "init supported maxArgs =
     \<lparr> isSupported = supported, argLimit = maxArgs, isPlaying = False, audioCtxRef = None, droneRef = None,
       endTimeoutRef = None, transientNodesRef = [], noiseBufferRef = False,
       reverbBufferRef = False, visualTimeoutsRef = [], sources = [], voices = [],
       timers = [], nextTimerId = 1, notified = [] \<rparr>"

subsection \<open>The platform\<close>

definition setTimeout :: "callback \<Rightarrow> jsnum \<Rightarrow> engine \<Rightarrow> nat \<times> engine" where
  "setTimeout cb delayMs s =
     (nextTimerId s,
      s\<lparr>timers := timers s @ [(nextTimerId s, delayMs, cb)],
        nextTimerId := Suc (nextTimerId s)\<rparr>)"

definition clearTimeout :: "nat \<Rightarrow> engine \<Rightarrow> engine" where
  "clearTimeout i s = s\<lparr>timers := filter (\<lambda>t. fst t \<noteq> i) (timers s)\<rparr>"

text \<open>
  The calls on the audio graph are taken as the commands they are: the model records
  the values and the times the hook passes. The platform refuses a time that is negative
  or not a finite number, in every call that takes one; this check on the arguments is
  outside the model, which says what the hook asks for. What is modelled is the error
  the hook itself guards against, the \<^verbatim>\<open>InvalidStateError\<close> of \<^verbatim>\<open>node.stop\<close>.
\<close>

text \<open>The effect of \<^verbatim>\<open>node.stop(when)\<close> on a started node: the stop time is recorded.\<close>

definition set_stop :: "nat \<Rightarrow> jsnum \<Rightarrow> engine \<Rightarrow> engine" where
  "set_stop i when s =
     s\<lparr>sources := (sources s)[i := (sources s ! i)\<lparr>stopAt := Some when\<rparr>]\<rparr>"

text \<open>\<^verbatim>\<open>node.stop(when)\<close>: an error on a node that was never started.\<close>

definition source_stop :: "nat \<Rightarrow> jsnum \<Rightarrow> engine \<Rightarrow> js_error + engine" where
  "source_stop i when s =
     (if length (sources s) \<le> i \<or> startAt (sources s ! i) = None then Inl InvalidStateError
      else Inr (set_stop i when s))"

text \<open>\<^verbatim>\<open>try { node.stop(when) } catch { /* ignore */ }\<close>\<close>

definition try_stop :: "nat \<Rightarrow> jsnum \<Rightarrow> engine \<Rightarrow> engine" where
  "try_stop i when s = (case source_stop i when s of Inl e \<Rightarrow> s | Inr s' \<Rightarrow> s')"

text \<open>A new source node, started at once at \<open>t\<close>: its name and the new state.\<close>

definition create_started :: "jsnum \<Rightarrow> engine \<Rightarrow> nat \<times> engine" where
  "create_started t s =
     (length (sources s),
      s\<lparr>sources := sources s @ [\<lparr>startAt = Some t, stopAt = None\<rparr>]\<rparr>)"

section \<open>The hook\<close>

definition BASE_GAIN :: jsnum where
  "BASE_GAIN = Fin 0.06"

text \<open>
  \<^verbatim>\<open>getAudioContext\<close>: \<^verbatim>\<open>null\<close> when the platform has no audio; the cached context;
  or a new one. A new context is taken to be suspended with its clock at 0: one that the
  platform creates running behaves as a suspended one whose \<^verbatim>\<open>resume()\<close> succeeds.
\<close>

definition getAudioContext :: "engine \<Rightarrow> AudioContext option \<times> engine" where
  "getAudioContext s =
     (if \<not> isSupported s then (None, s)
      else case audioCtxRef s of
        Some ctx \<Rightarrow> (Some ctx, s)
      | None \<Rightarrow>
          (Some \<lparr>ctxState = Suspended, currentTime = 0\<rparr>,
           s\<lparr>audioCtxRef := Some \<lparr>ctxState = Suspended, currentTime = 0\<rparr>\<rparr>))"

definition getNoiseBuffer :: "engine \<Rightarrow> engine" where
  "getNoiseBuffer s = (if noiseBufferRef s then s else s\<lparr>noiseBufferRef := True\<rparr>)"

definition getReverbBuffer :: "engine \<Rightarrow> engine" where
  "getReverbBuffer s = (if reverbBufferRef s then s else s\<lparr>reverbBufferRef := True\<rparr>)"

text \<open>
  \<^verbatim>\<open>ensureDrone\<close>: the cached drone, or a new one whose three oscillators are started at
  the current time and whose gain is set to 0.
\<close>

definition ensureDrone :: "AudioContext \<Rightarrow> engine \<Rightarrow> engine" where
  "ensureDrone ctx s =
     (case droneRef s of
        Some d \<Rightarrow> s
      | None \<Rightarrow>
          let s0 = getReverbBuffer s;
              now = Fin (currentTime ctx);
              (osc1, s1) = create_started now s0;
              (osc2, s2) = create_started now s1;
              (osc3, s3) = create_started now s2
          in s3\<lparr>droneRef := Some \<lparr>oscs = [osc1, osc2, osc3], gain = [AssignValue (Fin 0)]\<rparr>\<rparr>)"

text \<open>
  \<^verbatim>\<open>scheduleEventVoice(ctx, drone, {time, mag, lat, depthKm})\<close>. The tone oscillator and
  the noise source are both started at \<^verbatim>\<open>safeStart = Math.max(ctx.currentTime, time - 0.02)\<close>,
  given their stop times, and added to \<^verbatim>\<open>transientNodesRef\<close>. Each \<^verbatim>\<open>stop\<close> follows the
  \<^verbatim>\<open>start\<close> of the same node, so it cannot meet a node that was never started.
\<close>

definition scheduleEventVoice ::
  "AudioContext \<Rightarrow> jsnum \<Rightarrow> jsnum \<Rightarrow> jsnum \<Rightarrow> jsnum \<Rightarrow> engine \<Rightarrow> engine" where
  "scheduleEventVoice ctx t m la dKm s =
     (let start_t = safeStart (Fin (currentTime ctx)) t;
          (osc, s1) = create_started start_t s;
          s2 = set_stop osc (js_add (js_add t release) (Fin 0.5)) s1;
          s3 = s2\<lparr>transientNodesRef := transientNodesRef s2 @ [osc]\<rparr>;
          s4 = getNoiseBuffer s3;
          (noiseSource, s5) = create_started start_t s4;
          s6 = set_stop noiseSource (js_add (js_add t nRelease) (Fin 0.5)) s5;
          s7 = s6\<lparr>transientNodesRef := transientNodesRef s6 @ [noiseSource]\<rparr>
      in s7\<lparr>voices := voices s7 @
           [\<lparr> v_time = t, v_pan = panPos la, v_idx = idx m, v_freq = freq m, v_osc = osc,
              v_peakGain = peakGain m,
              v_voiceGain =
                [SetValueAtTime (Fin 0) start_t,
                 LinearRampToValueAtTime (peakGain m) (js_add t attack),
                 LinearRampToValueAtTime (Fin 0.0001) (js_add t release)],
              v_centerFreq = centerFreq dKm, v_noiseSource = noiseSource,
              v_noisePeak = noisePeak m,
              v_noiseGain =
                [SetValueAtTime (Fin 0) start_t,
                 LinearRampToValueAtTime (noisePeak m) (js_add t nAttack),
                 LinearRampToValueAtTime (Fin 0.0001) (js_add t nRelease)] \<rparr>]\<rparr>)"

text \<open>
  What \<^verbatim>\<open>ctx.currentTime\<close> reads when \<^verbatim>\<open>start\<close> gets its context: the clock of the cached
  context, or 0 for a context made on the spot.
\<close>

definition clockNow :: "engine \<Rightarrow> real" where
  "clockNow s = (case audioCtxRef s of None \<Rightarrow> 0 | Some ctx \<Rightarrow> currentTime ctx)"

text \<open>
  The timeline of \<^verbatim>\<open>start\<close>:
  \<^verbatim>\<open>
  const relMs = time - minTime;
  const t = now + startOffset + relMs / timeScale;
  \<close>
\<close>

definition startOffset :: jsnum where
  "startOffset = Fin 1.0"

definition spanMs :: "jsnum \<Rightarrow> jsnum \<Rightarrow> jsnum" where
  "spanMs maxTime minTime = js_or (js_sub maxTime minTime) (Fin 1)"

definition onset :: "jsnum \<Rightarrow> jsnum \<Rightarrow> jsnum \<Rightarrow> jsnum \<Rightarrow> jsnum \<Rightarrow> jsnum" where
  "onset now offset minTime timeScale tm =
     js_add (js_add now offset) (js_div (js_sub tm minTime) timeScale)"

text \<open>
  One turn of the loop over the events: the voice, then the timer of the visual callback
  when \<^verbatim>\<open>onEvent\<close> was supplied. The clock is read from the context passed in.
\<close>

definition schedule_feature ::
  "AudioContext \<Rightarrow> bool \<Rightarrow> jsnum \<Rightarrow> jsnum \<Rightarrow> jsnum \<Rightarrow> feature \<Rightarrow> engine \<Rightarrow> engine" where
  "schedule_feature ctx cb now minTime timeScale f s =
     (let t = onset now startOffset minTime timeScale (f_time f);
          s1 = scheduleEventVoice ctx t (f_mag f) (fst (snd (f_coordinates f)))
                 (snd (snd (f_coordinates f))) s
      in if cb then
           let delayMs = Math_max (Fin 0)
                           (js_mul (js_sub t (Fin (currentTime ctx))) (Fin 1000));
               (timeoutId, s2) = setTimeout (OnEvent f) delayMs s1
           in s2\<lparr>visualTimeoutsRef := visualTimeoutsRef s2 @ [timeoutId]\<rparr>
         else s1)"

definition clear_visualTimeouts :: "engine \<Rightarrow> engine" where
  "clear_visualTimeouts s =
     (fold clearTimeout (visualTimeoutsRef s) s)\<lparr>visualTimeoutsRef := []\<rparr>"

text \<open>The truthiness of \<^verbatim>\<open>endTimeoutRef.current\<close> (a number or \<^verbatim>\<open>null\<close>).\<close>

definition ref_truthy :: "nat option \<Rightarrow> bool" where
  "ref_truthy r = (case r of None \<Rightarrow> False | Some i \<Rightarrow> i \<noteq> 0)"

text \<open>
  The scheduling pass of \<^verbatim>\<open>start\<close>, from \<^verbatim>\<open>ensureDrone\<close> on, in the order of the
  source. It runs in one piece: the only \<^verbatim>\<open>await\<close> is before it, so no timer fires and
  no other call of the hook runs inside it. The audio clock is read once per pass: all
  reads of \<^verbatim>\<open>ctx.currentTime\<close> in the pass see the value of \<^verbatim>\<open>now\<close>.

  First the drone is made or found, and faded in. The drone that \<^verbatim>\<open>ensureDrone\<close> returns
  is the one in \<^verbatim>\<open>droneRef\<close>, so the fade-in is written on the drone of the ref.
\<close>

definition fade_in_drone :: "AudioContext \<Rightarrow> engine \<Rightarrow> engine" where
  "fade_in_drone ctx s =
     (let s1 = ensureDrone ctx s;
          now = Fin (currentTime ctx)
      in s1\<lparr>droneRef := map_option
              (\<lambda>d. d\<lparr>gain := gain d @
                 [CancelScheduledValues now, SetValueAtTime (Fin 0) now,
                  LinearRampToValueAtTime BASE_GAIN (js_add now (Fin 5))]\<rparr>)
              (droneRef s1)\<rparr>)"

text \<open>
  Then, \<^verbatim>\<open>minTime\<close> and \<^verbatim>\<open>maxTime\<close> being known, the pending visual timers are cleared
  and the loop over the events builds the voices and arms the new visual timers.
\<close>

definition schedule_loop ::
  "options \<Rightarrow> feature list \<Rightarrow> AudioContext \<Rightarrow> jsnum \<Rightarrow> jsnum \<Rightarrow> engine \<Rightarrow> engine" where
  "schedule_loop opts quakes ctx minTime maxTime s =
     (let now = Fin (currentTime ctx);
          timeScale = js_div (spanMs maxTime minTime) (durationSec_of opts);
          s3 = clear_visualTimeouts s
      in fold (schedule_feature ctx (onEvent opts) now minTime timeScale) quakes s3)"

text \<open>
  Last, the playing flag is set, the end-of-playback timer of \<^verbatim>\<open>endTimeoutRef\<close> is
  cleared, if there is one, and the new one is armed.
\<close>

definition arm_end_timer :: "options \<Rightarrow> AudioContext \<Rightarrow> engine \<Rightarrow> engine" where
  "arm_end_timer opts ctx s4 =
     (let now = Fin (currentTime ctx);
          s5 = s4\<lparr>isPlaying := True\<rparr>;
          estimatedEnd = js_add (js_add (js_add now startOffset) (durationSec_of opts)) (Fin 10);
          s6 = (if ref_truthy (endTimeoutRef s5)
                then clearTimeout (the (endTimeoutRef s5)) s5 else s5);
          (endId, s7) = setTimeout EndOfPlayback
                          (js_mul (js_sub estimatedEnd now) (Fin 1000)) s6
      in s7\<lparr>endTimeoutRef := Some endId\<rparr>)"

text \<open>
  The whole pass. \<^verbatim>\<open>Math.min(...times)\<close> and \<^verbatim>\<open>Math.max(...times)\<close> come after the
  fade-in and before anything else: when they throw, the drone has been faded in, no
  timer has been touched and no voice has been built.
\<close>

definition schedule :: "options \<Rightarrow> feature list \<Rightarrow> AudioContext \<Rightarrow> engine \<Rightarrow> engine" where
  "schedule opts quakes ctx s =
     (let s2 = fade_in_drone ctx s;
          ts = map f_time quakes
      in case Math_min_spread (argLimit s) ts of
           Inl e \<Rightarrow> s2
         | Inr minTime \<Rightarrow>
             (case Math_max_spread (argLimit s) ts of
                Inl e \<Rightarrow> s2
              | Inr maxTime \<Rightarrow>
                  arm_end_timer opts ctx (schedule_loop opts quakes ctx minTime maxTime s2)))"

text \<open>
  \<^verbatim>\<open>start()\<close> with the options of the render it was made in. \<open>resumeOk\<close> says whether
  \<^verbatim>\<open>ctx.resume()\<close> fulfils, should the context be suspended. The promise of \<^verbatim>\<open>start\<close>
  rejects in two cases: when \<^verbatim>\<open>ctx.resume()\<close> rejects, and nothing but the context has
  been created; and when the events are more than the engine takes as arguments, and the
  spread calls throw after the fade-in of the drone.
\<close>

definition start_rejects :: "options \<Rightarrow> bool \<Rightarrow> engine \<Rightarrow> bool" where
  "start_rejects opts resumeOk s =
     (case features opts of
        None \<Rightarrow> False
      | Some quakes \<Rightarrow>
          quakes \<noteq> [] \<and>
          (case fst (getAudioContext s) of
             None \<Rightarrow> False
           | Some ctx \<Rightarrow>
               (ctxState ctx = Suspended \<and> \<not> resumeOk) \<or> argLimit s < length quakes))"

definition start :: "options \<Rightarrow> bool \<Rightarrow> engine \<Rightarrow> engine" where
  "start opts resumeOk s =
     (case features opts of
        None \<Rightarrow> s
      | Some quakes \<Rightarrow>
          if quakes = [] then s
          else
            let (ctx_opt, s1) = getAudioContext s in
            case ctx_opt of
              None \<Rightarrow> s1
            | Some ctx \<Rightarrow>
                if ctxState ctx = Suspended \<and> \<not> resumeOk then s1
                else
                  let ctx' = ctx\<lparr>ctxState := Running\<rparr>
                  in schedule opts quakes ctx' (s1\<lparr>audioCtxRef := Some ctx'\<rparr>))"

text \<open>
  \<^verbatim>\<open>start\<close> schedules, that is it reaches the loop over the events: there are events,
  audio, and no rejection.
\<close>

definition start_schedules :: "options \<Rightarrow> bool \<Rightarrow> engine \<Rightarrow> bool" where
  "start_schedules opts resumeOk s =
     (case features opts of
        None \<Rightarrow> False
      | Some quakes \<Rightarrow> quakes \<noteq> [] \<and> isSupported s \<and> \<not> start_rejects opts resumeOk s)"

text \<open>
  \<^verbatim>\<open>stop()\<close>. No call in it can raise past it: the two \<^verbatim>\<open>node.stop\<close> loops catch and
  ignore, and the rest are commands on the gain and on the timers.
\<close>

definition stop_drone :: "engine \<Rightarrow> engine" where
  "stop_drone s =
     (case (audioCtxRef s, droneRef s) of
        (Some ctx, Some drone) \<Rightarrow>
          let now = Fin (currentTime ctx);
              s1 = s\<lparr>droneRef := Some (drone\<lparr>gain := gain drone @
                      [CancelScheduledValues now, SetCurrentValueAtTime now,
                       LinearRampToValueAtTime (Fin 0) (js_add now (Fin 2.5))]\<rparr>)\<rparr>
          in fold (\<lambda>osc. try_stop osc (js_add now (Fin 3))) (oscs drone) s1
      | _ \<Rightarrow> s)"

definition stop :: "engine \<Rightarrow> engine" where
  "stop s =
     (let s1 = stop_drone s;
          s2 = fold (\<lambda>node. try_stop node (Fin 0)) (transientNodesRef s1) s1;
          s3 = s2\<lparr>transientNodesRef := []\<rparr>;
          s4 = clear_visualTimeouts s3;
          s5 = (if ref_truthy (endTimeoutRef s4)
                then (clearTimeout (the (endTimeoutRef s4)) s4)\<lparr>endTimeoutRef := None\<rparr>
                else s4)
      in s5\<lparr>isPlaying := False\<rparr>)"

subsection \<open>What the platform does between the calls\<close>

text \<open>
  The callback of a timer. The end-of-playback callback fades the drone out over 5
  seconds and clears the playing flag; it leaves \<^verbatim>\<open>endTimeoutRef\<close> as it is.
\<close>

definition run_callback :: "nat \<Rightarrow> callback \<Rightarrow> engine \<Rightarrow> engine" where
  "run_callback i cb s =
     (case cb of
        OnEvent f \<Rightarrow> s\<lparr>notified := notified s @ [(i, f)]\<rparr>
      | EndOfPlayback \<Rightarrow>
          (case audioCtxRef s of
             None \<Rightarrow> s\<lparr>isPlaying := False\<rparr>
           | Some ctx \<Rightarrow>
               let ctxNow = Fin (currentTime ctx)
               in s\<lparr>droneRef := map_option
                      (\<lambda>d. d\<lparr>gain := gain d @
                         [CancelScheduledValues ctxNow, SetCurrentValueAtTime ctxNow,
                          LinearRampToValueAtTime (Fin 0) (js_add ctxNow (Fin 5))]\<rparr>)
                      (droneRef s),
                    isPlaying := False\<rparr>))"

text \<open>Timer \<open>i\<close> fires, if it is pending: it leaves the table and its callback runs.\<close>

definition fire :: "nat \<Rightarrow> engine \<Rightarrow> engine" where
  "fire i s =
     (case find (\<lambda>t. fst t = i) (timers s) of
        None \<Rightarrow> s
      | Some t \<Rightarrow> run_callback i (snd (snd t)) (clearTimeout i s))"

text \<open>The \<^verbatim>\<open>ended\<close> listener of a voice node: it leaves \<^verbatim>\<open>transientNodesRef\<close>.\<close>

definition ended :: "nat \<Rightarrow> engine \<Rightarrow> engine" where
  "ended i s = s\<lparr>transientNodesRef := removeAll i (transientNodesRef s)\<rparr>"

text \<open>The audio clock moves on by \<open>d\<close> seconds.\<close>

definition advance :: "real \<Rightarrow> engine \<Rightarrow> engine" where
  "advance d s =
     s\<lparr>audioCtxRef := map_option (\<lambda>c. c\<lparr>currentTime := currentTime c + max 0 d\<rparr>)
          (audioCtxRef s)\<rparr>"

text \<open>
  The cleanup of the hook when it is unmounted: \<^verbatim>\<open>stop()\<close>, then the context is closed
  and the refs are emptied.
\<close>

definition dispose :: "engine \<Rightarrow> engine" where
  "dispose s =
     clear_visualTimeouts
       ((stop s)\<lparr>audioCtxRef := None, droneRef := None, noiseBufferRef := False,
          reverbBufferRef := False\<rparr>)"

text \<open>The life of a mounted hook: any sequence of these steps from \<open>init\<close>.\<close>

datatype op = Start options bool | Stop | Fire nat | Ended nat | Advance real

fun step :: "op \<Rightarrow> engine \<Rightarrow> engine" where
  "step (Start opts resumeOk) s = start opts resumeOk s"
| "step Stop s = stop s"
| "step (Fire i) s = fire i s"
| "step (Ended i) s = ended i s"
| "step (Advance d) s = advance d s"

definition run :: "op list \<Rightarrow> engine \<Rightarrow> engine" where
  "run ops s = fold step ops s"

subsection \<open>The first version of the hook\<close>

text \<open>
  The hook under \<^verbatim>\<open>src/hooks\<close> has the same timeline with \<^verbatim>\<open>startOffset = 0.1\<close> and
  passes each \<^verbatim>\<open>t\<close> to \<^verbatim>\<open>scheduleQuakeSound\<close>, which starts its oscillator at \<^verbatim>\<open>t\<close>.
  Only the onset times of this version are modelled, as it computes them from a list
  that its two spread calls accept.
\<close>

definition start_onsets_v1 :: "jsnum \<Rightarrow> jsnum \<Rightarrow> feature list \<Rightarrow> jsnum list" where
  "start_onsets_v1 now dur quakes =
     (let ts = map f_time quakes;
          minTime = Math_min_args ts;
          maxTime = Math_max_args ts;
          timeScale = js_div (spanMs maxTime minTime) dur
      in map (\<lambda>f. onset now (Fin 0.1) minTime timeScale (f_time f)) quakes)"

subsection \<open>Properties of a state\<close>

text \<open>A timer that will run the end-of-playback callback.\<close>

definition is_end :: "nat \<times> jsnum \<times> callback \<Rightarrow> bool" where
  "is_end t = (snd (snd t) = EndOfPlayback)"

text \<open>
  Every pending timer is known to the hook: identifiers are positive, below the next
  one and pairwise different; the end-of-playback timer is the one in
  \<^verbatim>\<open>endTimeoutRef\<close>, and a visual timer is listed in \<^verbatim>\<open>visualTimeoutsRef\<close>.
\<close>

definition timers_tracked :: "engine \<Rightarrow> bool" where
  "timers_tracked s =
     (0 < nextTimerId s \<and> distinct (map fst (timers s)) \<and>
      (\<forall>t \<in> set (timers s).
         0 < fst t \<and> fst t < nextTimerId s \<and>
         (if is_end t then endTimeoutRef s = Some (fst t)
          else fst t \<in> set (visualTimeoutsRef s))))"

text \<open>
  What holds at each turn of the loop of \<^verbatim>\<open>start\<close> that began when the next identifier
  was \<open>n\<close>: the timers are tracked and every visual timer has been armed in this loop.
\<close>

definition loop_inv :: "nat \<Rightarrow> engine \<Rightarrow> bool" where
  "loop_inv n s =
     (timers_tracked s \<and> n \<le> nextTimerId s \<and>
      (\<forall>t \<in> set (timers s). \<not> is_end t \<longrightarrow> n \<le> fst t))"

text \<open>
  The identifier the platform was about to give when the most recent \<^verbatim>\<open>start\<close> that
  scheduled began, over a run from \<open>s\<close>; \<open>m\<close> when there is none. A timer with an
  identifier from there on was armed by that \<^verbatim>\<open>start\<close>, no other step arming timers.
\<close>

definition mark_step :: "op \<Rightarrow> engine \<Rightarrow> nat \<Rightarrow> nat" where
  "mark_step x s m =
     (case x of
        Start opts resumeOk \<Rightarrow> if start_schedules opts resumeOk s then nextTimerId s else m
      | _ \<Rightarrow> m)"

fun last_start_mark :: "op list \<Rightarrow> engine \<Rightarrow> nat \<Rightarrow> nat" where
  "last_start_mark [] s m = m"
| "last_start_mark (x # ops) s m = last_start_mark ops (step x s) (mark_step x s m)"

text \<open>
  The source nodes are in order: a node of \<^verbatim>\<open>transientNodesRef\<close> has been created; the
  audio clock is not negative; when there is a drone there is a context, and each
  oscillator of the drone has been created and started and is not one of the transient
  nodes.
\<close>

definition nodes_wf :: "engine \<Rightarrow> bool" where
  "nodes_wf s =
     ((\<forall>i \<in> set (transientNodesRef s). i < length (sources s)) \<and>
      (case audioCtxRef s of None \<Rightarrow> True | Some ctx \<Rightarrow> 0 \<le> currentTime ctx) \<and>
      (case droneRef s of
         None \<Rightarrow> True
       | Some d \<Rightarrow>
           audioCtxRef s \<noteq> None \<and>
           (\<forall>i \<in> set (oscs d).
              i < length (sources s) \<and> startAt (sources s ! i) \<noteq> None \<and>
              i \<notin> set (transientNodesRef s))))"

text \<open>
  From \<open>s\<close> to \<open>s'\<close> nodes were only added: the nodes of \<open>s\<close> are as they were, the new
  transient nodes are new nodes, the context and the drone are the same.
\<close>

definition grows :: "engine \<Rightarrow> engine \<Rightarrow> bool" where
  "grows s s' =
     ((\<exists>ys. sources s' = sources s @ ys) \<and>
      (\<forall>i \<in> set (transientNodesRef s').
         i \<in> set (transientNodesRef s) \<or> (length (sources s) \<le> i \<and> i < length (sources s'))) \<and>
      droneRef s' = droneRef s \<and> audioCtxRef s' = audioCtxRef s)"

text \<open>The automation of a fade-in at \<open>now\<close>, and of a fade-out at \<open>now\<close> over \<open>secs\<close>.\<close>

definition fade_in :: "real \<Rightarrow> automation list" where
  "fade_in now =
     [CancelScheduledValues (Fin now), SetValueAtTime (Fin 0) (Fin now),
      LinearRampToValueAtTime (Fin 0.06) (Fin (now + 5))]"

definition fade_out :: "real \<Rightarrow> real \<Rightarrow> automation list" where
  "fade_out now secs =
     [CancelScheduledValues (Fin now), SetCurrentValueAtTime (Fin now),
      LinearRampToValueAtTime (Fin 0) (Fin (now + secs))]"

subsection \<open>A sample run\<close>

text \<open>Two events one minute apart, to be played in 60 seconds with a visual callback.\<close>

definition quake_a :: feature where
  "quake_a = \<lparr> f_mag = Fin 0, f_time = Fin 1000, f_place = ''a'',
               f_coordinates = (Fin 10, Fin (- 45), Fin 0) \<rparr>"

definition quake_b :: feature where
  "quake_b = \<lparr> f_mag = Fin 7, f_time = Fin 61000, f_place = ''b'',
               f_coordinates = (Fin 20, Fin 45, Fin 700) \<rparr>"

definition two_quakes :: options where
  "two_quakes = \<lparr> features = Some [quake_a, quake_b], durationSec = None, onEvent = True \<rparr>"

definition one_quake :: options where
  "one_quake = \<lparr> features = Some [quake_b], durationSec = Some (Fin 30), onEvent = True \<rparr>"

text \<open>The options of a render that has no event to play.\<close>

definition no_quakes :: options where
  "no_quakes = \<lparr> features = Some [], durationSec = None, onEvent = True \<rparr>"

section \<open>Arithmetic on finite numbers\<close>

lemma Math_min_Fin: "Math_min (Fin a) (Fin b) = Fin (min a b)"
  by (simp add: Math_min_def min_def)

lemma Math_max_Fin: "Math_max (Fin a) (Fin b) = Fin (max a b)"
  by (simp add: Math_max_def max_def)

lemma js_sub_Fin: "js_sub (Fin a) (Fin b) = Fin (a - b)"
  by (simp add: js_sub_def)

lemmas Fin_simps = Math_min_Fin Math_max_Fin js_sub_Fin

section \<open>The parameter mapper: \<^verbatim>\<open>mapRange\<close>\<close>
















section \<open>The voice parameters\<close>

lemma magClamped_Fin: "\<exists>x. magClamped m = Fin x \<and> 0 \<le> x \<and> x \<le> 7"
  by (cases m) (auto simp: magClamped_def js_or_def js_truthy_def Math_min_def Math_max_def)

lemma idx_range: "\<exists>k::nat. k < 5 \<and> idx m = Fin (real k)"
proof -
  obtain x where x: "magClamped m = Fin x" "0 \<le> x" "x \<le> 7"
    using magClamped_Fin by blast
  define y where "y = x / 7 * (4999 / 1000 :: real)"
  have y: "0 \<le> y" "y < 5"
    using x by (auto simp: y_def)
  have i: "idx m = Fin (of_int \<lfloor>y\<rfloor>)"
    using x
    by (simp add: idx_def scaleSemis_def mapRange_def Number_isNaN_def js_seq_def Let_def
        y_def Fin_simps)
  have f: "0 \<le> \<lfloor>y\<rfloor>" "\<lfloor>y\<rfloor> < 5"
    using y by (auto simp: floor_less_iff)
  have "nat \<lfloor>y\<rfloor> < 5"
    using f by linarith
  moreover have "real (nat \<lfloor>y\<rfloor>) = of_int \<lfloor>y\<rfloor>"
    using f by simp
  ultimately show ?thesis
    using i by (intro exI[of _ "nat \<lfloor>y\<rfloor>"]) simp
qed

lemma js_index_scaleSemis:
  "k < 5 \<Longrightarrow> js_index scaleSemis (Fin (real k)) = Some (scaleSemis ! k)"
  by (simp add: js_index_def scaleSemis_def)

text \<open>
  C9. For every magnitude, NaN and the infinities included, the scale index
  \<^verbatim>\<open>Math.floor(mapRange(magClamped, 0, 7, 0, scaleSemis.length - 0.001))\<close> is one of
  0, 1, 2, 3, 4; the lookup \<^verbatim>\<open>scaleSemis[idx]\<close> is inside the table, and the frequency
  is the finite number \<open>196 \<times> 2^(semis/12)\<close>.
\<close>

theorem idx_in_bounds:
  "\<exists>k::nat. k < length scaleSemis \<and> idx m = Fin (real k) \<and>
     semis m = Some (scaleSemis ! k) \<and>
     freq m = Fin (196 * 2 powr (scaleSemis ! k / 12))"
proof -
  obtain k :: nat where k: "k < 5" "idx m = Fin (real k)"
    using idx_range by blast
  have s: "semis m = Some (scaleSemis ! k)"
    using k by (simp add: semis_def js_index_scaleSemis)
  have "freq m = Fin (196 * 2 powr (scaleSemis ! k / 12))"
    by (simp add: freq_def s to_number_def root_freq_def)
  with k s show ?thesis
    by (intro exI[of _ k]) (simp add: scaleSemis_def)
qed





lemma voices_scheduleEventVoice:
  "\<exists>v. voices (scheduleEventVoice ctx t m la dKm s) = voices s @ [v] \<and>
       v_time v = t \<and> v_idx v = idx m \<and> v_peakGain v = peakGain m"
  by (simp add: scheduleEventVoice_def Let_def create_started_def set_stop_def
      getNoiseBuffer_def split: prod.splits)


section \<open>What each operation leaves alone\<close>

lemma clearTimeout_fields:
  "isSupported (clearTimeout i s) = isSupported s"
  "isPlaying (clearTimeout i s) = isPlaying s"
  "audioCtxRef (clearTimeout i s) = audioCtxRef s"
  "droneRef (clearTimeout i s) = droneRef s"
  "endTimeoutRef (clearTimeout i s) = endTimeoutRef s"
  "transientNodesRef (clearTimeout i s) = transientNodesRef s"
  "visualTimeoutsRef (clearTimeout i s) = visualTimeoutsRef s"
  "sources (clearTimeout i s) = sources s"
  "voices (clearTimeout i s) = voices s"
  "nextTimerId (clearTimeout i s) = nextTimerId s"
  "notified (clearTimeout i s) = notified s"
  "timers (clearTimeout i s) = filter (\<lambda>t. fst t \<noteq> i) (timers s)"
  "argLimit (clearTimeout i s) = argLimit s"
  by (simp_all add: clearTimeout_def)

lemma fold_clearTimeout_fields:
  "isSupported (fold clearTimeout is s) = isSupported s"
  "isPlaying (fold clearTimeout is s) = isPlaying s"
  "audioCtxRef (fold clearTimeout is s) = audioCtxRef s"
  "droneRef (fold clearTimeout is s) = droneRef s"
  "endTimeoutRef (fold clearTimeout is s) = endTimeoutRef s"
  "transientNodesRef (fold clearTimeout is s) = transientNodesRef s"
  "visualTimeoutsRef (fold clearTimeout is s) = visualTimeoutsRef s"
  "sources (fold clearTimeout is s) = sources s"
  "voices (fold clearTimeout is s) = voices s"
  "nextTimerId (fold clearTimeout is s) = nextTimerId s"
  "notified (fold clearTimeout is s) = notified s"
  "timers (fold clearTimeout is s) = filter (\<lambda>t. fst t \<notin> set is) (timers s)"
  "argLimit (fold clearTimeout is s) = argLimit s"
  by (induction "is" arbitrary: s; simp add: clearTimeout_fields; metis)+

lemma clear_visualTimeouts_fields:
  "isSupported (clear_visualTimeouts s) = isSupported s"
  "isPlaying (clear_visualTimeouts s) = isPlaying s"
  "audioCtxRef (clear_visualTimeouts s) = audioCtxRef s"
  "droneRef (clear_visualTimeouts s) = droneRef s"
  "endTimeoutRef (clear_visualTimeouts s) = endTimeoutRef s"
  "transientNodesRef (clear_visualTimeouts s) = transientNodesRef s"
  "visualTimeoutsRef (clear_visualTimeouts s) = []"
  "sources (clear_visualTimeouts s) = sources s"
  "voices (clear_visualTimeouts s) = voices s"
  "nextTimerId (clear_visualTimeouts s) = nextTimerId s"
  "notified (clear_visualTimeouts s) = notified s"
  "timers (clear_visualTimeouts s) = filter (\<lambda>t. fst t \<notin> set (visualTimeoutsRef s)) (timers s)"
  "argLimit (clear_visualTimeouts s) = argLimit s"
  by (simp_all add: clear_visualTimeouts_def fold_clearTimeout_fields)

lemma set_stop_fields:
  "isSupported (set_stop i w s) = isSupported s"
  "isPlaying (set_stop i w s) = isPlaying s"
  "audioCtxRef (set_stop i w s) = audioCtxRef s"
  "droneRef (set_stop i w s) = droneRef s"
  "endTimeoutRef (set_stop i w s) = endTimeoutRef s"
  "transientNodesRef (set_stop i w s) = transientNodesRef s"
  "visualTimeoutsRef (set_stop i w s) = visualTimeoutsRef s"
  "voices (set_stop i w s) = voices s"
  "timers (set_stop i w s) = timers s"
  "nextTimerId (set_stop i w s) = nextTimerId s"
  "notified (set_stop i w s) = notified s"
  "length (sources (set_stop i w s)) = length (sources s)"
  "argLimit (set_stop i w s) = argLimit s"
  by (simp_all add: set_stop_def)

lemma try_stop_fields:
  "isSupported (try_stop i w s) = isSupported s"
  "isPlaying (try_stop i w s) = isPlaying s"
  "audioCtxRef (try_stop i w s) = audioCtxRef s"
  "droneRef (try_stop i w s) = droneRef s"
  "endTimeoutRef (try_stop i w s) = endTimeoutRef s"
  "transientNodesRef (try_stop i w s) = transientNodesRef s"
  "visualTimeoutsRef (try_stop i w s) = visualTimeoutsRef s"
  "voices (try_stop i w s) = voices s"
  "timers (try_stop i w s) = timers s"
  "nextTimerId (try_stop i w s) = nextTimerId s"
  "notified (try_stop i w s) = notified s"
  "length (sources (try_stop i w s)) = length (sources s)"
  "argLimit (try_stop i w s) = argLimit s"
  by (simp_all add: try_stop_def source_stop_def set_stop_fields)

lemma ensureDrone_fields:
  "isSupported (ensureDrone ctx s) = isSupported s"
  "isPlaying (ensureDrone ctx s) = isPlaying s"
  "audioCtxRef (ensureDrone ctx s) = audioCtxRef s"
  "endTimeoutRef (ensureDrone ctx s) = endTimeoutRef s"
  "transientNodesRef (ensureDrone ctx s) = transientNodesRef s"
  "visualTimeoutsRef (ensureDrone ctx s) = visualTimeoutsRef s"
  "voices (ensureDrone ctx s) = voices s"
  "timers (ensureDrone ctx s) = timers s"
  "nextTimerId (ensureDrone ctx s) = nextTimerId s"
  "notified (ensureDrone ctx s) = notified s"
  "argLimit (ensureDrone ctx s) = argLimit s"
  by (simp_all add: ensureDrone_def Let_def create_started_def getReverbBuffer_def split: option.splits)

lemma scheduleEventVoice_fields:
  "isSupported (scheduleEventVoice ctx t m la dKm s) = isSupported s"
  "isPlaying (scheduleEventVoice ctx t m la dKm s) = isPlaying s"
  "audioCtxRef (scheduleEventVoice ctx t m la dKm s) = audioCtxRef s"
  "droneRef (scheduleEventVoice ctx t m la dKm s) = droneRef s"
  "endTimeoutRef (scheduleEventVoice ctx t m la dKm s) = endTimeoutRef s"
  "visualTimeoutsRef (scheduleEventVoice ctx t m la dKm s) = visualTimeoutsRef s"
  "timers (scheduleEventVoice ctx t m la dKm s) = timers s"
  "nextTimerId (scheduleEventVoice ctx t m la dKm s) = nextTimerId s"
  "notified (scheduleEventVoice ctx t m la dKm s) = notified s"
  "argLimit (scheduleEventVoice ctx t m la dKm s) = argLimit s"
  by (simp_all add: scheduleEventVoice_def Let_def create_started_def set_stop_fields
      getNoiseBuffer_def split: prod.splits)

lemma schedule_feature_fields:
  "isSupported (schedule_feature ctx cb now mn ts f s) = isSupported s"
  "isPlaying (schedule_feature ctx cb now mn ts f s) = isPlaying s"
  "audioCtxRef (schedule_feature ctx cb now mn ts f s) = audioCtxRef s"
  "droneRef (schedule_feature ctx cb now mn ts f s) = droneRef s"
  "endTimeoutRef (schedule_feature ctx cb now mn ts f s) = endTimeoutRef s"
  "notified (schedule_feature ctx cb now mn ts f s) = notified s"
  "argLimit (schedule_feature ctx cb now mn ts f s) = argLimit s"
  by (simp_all add: schedule_feature_def Let_def setTimeout_def scheduleEventVoice_fields split: prod.splits)

lemma voices_schedule_feature:
  "\<exists>v. voices (schedule_feature ctx cb now mn ts f s) = voices s @ [v] \<and>
       v_time v = onset now startOffset mn ts (f_time f)"
  using voices_scheduleEventVoice[of ctx "onset now startOffset mn ts (f_time f)" "f_mag f"
      "fst (snd (f_coordinates f))" "snd (snd (f_coordinates f))" s]
  by (auto simp: schedule_feature_def Let_def setTimeout_def split: prod.splits)

lemma voices_fold_schedule_feature:
  "\<exists>vs. voices (fold (schedule_feature ctx cb now mn ts) quakes s) = voices s @ vs \<and>
        map v_time vs = map (\<lambda>f. onset now startOffset mn ts (f_time f)) quakes"
proof (induction quakes arbitrary: s)
  case Nil
  show ?case by simp
next
  case (Cons f quakes)
  obtain v where v: "voices (schedule_feature ctx cb now mn ts f s) = voices s @ [v]"
    "v_time v = onset now startOffset mn ts (f_time f)"
    using voices_schedule_feature by blast
  obtain vs where vs:
    "voices (fold (schedule_feature ctx cb now mn ts) quakes (schedule_feature ctx cb now mn ts f s))
       = voices (schedule_feature ctx cb now mn ts f s) @ vs"
    "map v_time vs = map (\<lambda>f. onset now startOffset mn ts (f_time f)) quakes"
    using Cons.IH by blast
  show ?case
    by (intro exI[of _ "v # vs"]) (simp add: v vs)
qed


lemma voices_fold_schedule_feature_from:
  "voices s3 = vs0 \<Longrightarrow>
   \<exists>vs. voices (fold (schedule_feature ctx cb now mn ts) quakes s3) = vs0 @ vs \<and>
        map v_time vs = map (\<lambda>f. onset now startOffset mn ts (f_time f)) quakes"
  using voices_fold_schedule_feature[of ctx cb now mn ts quakes s3] by simp

lemma fade_in_drone_fields:
  "isSupported (fade_in_drone ctx s) = isSupported s"
  "isPlaying (fade_in_drone ctx s) = isPlaying s"
  "audioCtxRef (fade_in_drone ctx s) = audioCtxRef s"
  "endTimeoutRef (fade_in_drone ctx s) = endTimeoutRef s"
  "transientNodesRef (fade_in_drone ctx s) = transientNodesRef s"
  "visualTimeoutsRef (fade_in_drone ctx s) = visualTimeoutsRef s"
  "voices (fade_in_drone ctx s) = voices s"
  "timers (fade_in_drone ctx s) = timers s"
  "nextTimerId (fade_in_drone ctx s) = nextTimerId s"
  "notified (fade_in_drone ctx s) = notified s"
  "argLimit (fade_in_drone ctx s) = argLimit s"
  "sources (fade_in_drone ctx s) = sources (ensureDrone ctx s)"
  by (simp_all add: fade_in_drone_def Let_def ensureDrone_fields)

lemma arm_end_timer_fields:
  "isSupported (arm_end_timer opts ctx s) = isSupported s"
  "isPlaying (arm_end_timer opts ctx s) = True"
  "audioCtxRef (arm_end_timer opts ctx s) = audioCtxRef s"
  "droneRef (arm_end_timer opts ctx s) = droneRef s"
  "transientNodesRef (arm_end_timer opts ctx s) = transientNodesRef s"
  "visualTimeoutsRef (arm_end_timer opts ctx s) = visualTimeoutsRef s"
  "sources (arm_end_timer opts ctx s) = sources s"
  "voices (arm_end_timer opts ctx s) = voices s"
  "notified (arm_end_timer opts ctx s) = notified s"
  "argLimit (arm_end_timer opts ctx s) = argLimit s"
  by (simp_all add: arm_end_timer_def Let_def setTimeout_def clearTimeout_fields
      split: prod.splits)

lemma schedule_within:
  "length quakes \<le> argLimit s \<Longrightarrow>
   schedule opts quakes ctx s =
     arm_end_timer opts ctx
       (schedule_loop opts quakes ctx (Math_min_args (map f_time quakes))
          (Math_max_args (map f_time quakes)) (fade_in_drone ctx s))"
  by (simp add: schedule_def Let_def Math_min_spread_def Math_max_spread_def)

lemma schedule_beyond:
  "argLimit s < length quakes \<Longrightarrow> schedule opts quakes ctx s = fade_in_drone ctx s"
  by (simp add: schedule_def Let_def Math_min_spread_def)

lemma voices_schedule_loop:
  "\<exists>vs. voices (schedule_loop opts quakes ctx mn mx s) = voices s @ vs \<and>
        map v_time vs =
          map (\<lambda>f. onset (Fin (currentTime ctx)) startOffset mn
                     (js_div (spanMs mx mn) (durationSec_of opts)) (f_time f))
            quakes"
  unfolding schedule_loop_def Let_def
  by (rule voices_fold_schedule_feature_from) (simp add: clear_visualTimeouts_fields)

lemma voices_schedule:
  assumes "length quakes \<le> argLimit s"
  shows "\<exists>vs. voices (schedule opts quakes ctx s) = voices s @ vs \<and>
        map v_time vs =
          map (\<lambda>f. onset (Fin (currentTime ctx)) startOffset
                     (Math_min_args (map f_time quakes))
                     (js_div (spanMs (Math_max_args (map f_time quakes))
                                (Math_min_args (map f_time quakes)))
                        (durationSec_of opts)) (f_time f))
            quakes"
  using voices_schedule_loop[of opts quakes ctx "Math_min_args (map f_time quakes)"
      "Math_max_args (map f_time quakes)" "fade_in_drone ctx s"]
  by (simp add: schedule_within[OF assms] arm_end_timer_fields fade_in_drone_fields)

lemma start_schedules_within:
  "features opts = Some quakes \<Longrightarrow> start_schedules opts resumeOk s \<Longrightarrow>
   length quakes \<le> argLimit s"
  by (auto simp: start_schedules_def start_rejects_def getAudioContext_def
      split: option.splits)

lemma start_eq_schedule:
  assumes "features opts = Some quakes" "start_schedules opts resumeOk s"
  shows "\<exists>ctx. ctxState ctx = Running \<and> currentTime ctx = clockNow s \<and>
           start opts resumeOk s = schedule opts quakes ctx (s\<lparr>audioCtxRef := Some ctx\<rparr>)"
proof (cases "audioCtxRef s")
  case None
  with assms show ?thesis
    by (intro exI[of _ "\<lparr>ctxState = Running, currentTime = 0\<rparr>"])
       (auto simp: start_def start_schedules_def start_rejects_def getAudioContext_def
          clockNow_def Let_def)
next
  case (Some a)
  with assms show ?thesis
    by (intro exI[of _ "a\<lparr>ctxState := Running\<rparr>"])
       (auto simp: start_def start_schedules_def start_rejects_def getAudioContext_def
          clockNow_def Let_def)
qed

lemma voices_start:
  assumes "features opts = Some quakes" "start_schedules opts resumeOk s"
  shows "\<exists>vs. voices (start opts resumeOk s) = voices s @ vs \<and>
        map v_time vs =
          map (\<lambda>f. onset (Fin (clockNow s)) startOffset
                     (Math_min_args (map f_time quakes))
                     (js_div (spanMs (Math_max_args (map f_time quakes))
                                (Math_min_args (map f_time quakes)))
                        (durationSec_of opts)) (f_time f))
            quakes"
proof -
  obtain ctx where ctx: "currentTime ctx = clockNow s"
    "start opts resumeOk s = schedule opts quakes ctx (s\<lparr>audioCtxRef := Some ctx\<rparr>)"
    using start_eq_schedule[OF assms] by blast
  have "length quakes \<le> argLimit (s\<lparr>audioCtxRef := Some ctx\<rparr>)"
    using start_schedules_within[OF assms] by simp
  from voices_schedule[OF this, of opts ctx] show ?thesis
    by (simp add: ctx)
qed

section \<open>The timeline\<close>

lemma args_Fin:
  "Math_min_args [Fin a, Fin b] = Fin (min a b)"
  "Math_max_args [Fin a, Fin b] = Fin (max a b)"
  "Math_min_args [Fin a] = Fin a"
  "Math_max_args [Fin a] = Fin a"
  by (simp_all add: Math_min_args_def Math_max_args_def Math_min_def Math_max_def
      min_def max_def)

lemma onset_single:
  "onset (Fin now) (Fin off) (Math_min_args [Fin a])
     (js_div (spanMs (Math_max_args [Fin a]) (Math_min_args [Fin a])) (Fin D)) (Fin a) =
   Fin (now + off)"
  by (auto simp: args_Fin spanMs_def js_or_def js_truthy_def onset_def js_sub_def
      signed_inf_def max_def min_def)

text \<open>
  C2. A collection of one event with a finite timestamp, played with a finite
  \<^verbatim>\<open>durationSec\<close>: the span is 0, so \<^verbatim>\<open>spanMs\<close> is 1, \<^verbatim>\<open>relMs\<close> is 0 and the onset is
  \<^verbatim>\<open>now + startOffset\<close> whatever the timestamp is (\<^verbatim>\<open>startOffset\<close> is 1.0, and 0.1 in the
  first version of the hook).
\<close>

theorem single_event_onset:
  assumes "features opts = Some [e]" and "start_schedules opts resumeOk s"
    and "f_time e = Fin T" and "durationSec_of opts = Fin D"
  shows "(\<exists>v. voices (start opts resumeOk s) = voices s @ [v] \<and>
              v_time v = js_add (Fin (clockNow s)) startOffset) \<and>
         start_onsets_v1 (Fin now) (Fin D) [e] = [js_add (Fin now) (Fin 0.1)]"
proof -
  obtain vs where vs: "voices (start opts resumeOk s) = voices s @ vs"
    "map v_time vs =
       map (\<lambda>f. onset (Fin (clockNow s)) startOffset
                     (Math_min_args (map f_time [e]))
                     (js_div (spanMs (Math_max_args (map f_time [e]))
                                (Math_min_args (map f_time [e])))
                        (durationSec_of opts)) (f_time f))
            [e]"
    using voices_start[OF assms(1,2)] by blast
  from vs(2) obtain v where v: "vs = [v]"
    by (cases vs; cases "tl vs") auto
  from vs v assms(3,4) show ?thesis
    by (auto simp: startOffset_def start_onsets_v1_def Let_def onset_single)
qed

theorem single_event_onset_witness:
  "(\<exists>v. voices (start one_quake True (init True 65535)) = [v] \<and> v_time v = Fin 1) \<and>
   start_onsets_v1 (Fin 2) (Fin 30) [quake_b] = [Fin 2.1]"
  using single_event_onset[of one_quake quake_b True "init True 65535" 61000 30 2]
  by (simp add: one_quake_def quake_b_def init_def start_schedules_def
      start_rejects_def getAudioContext_def durationSec_of_def clockNow_def startOffset_def)

section \<open>Voices whose onset is already past\<close>

lemma safeStart_past: "js_lt t (Fin c) \<Longrightarrow> safeStart (Fin c) t = Fin c"
  by (cases t) (auto simp: safeStart_def js_sub_def Math_max_def)

lemma source_stop_after_start:
  "source_stop (fst (create_started t s)) w (snd (create_started t s)) =
     Inr (set_stop (fst (create_started t s)) w (snd (create_started t s)))"
  by (simp add: source_stop_def create_started_def)

lemma startAt_set_stop:
  "i < length (sources s) \<Longrightarrow> map startAt (sources (set_stop i w s)) = map startAt (sources s)"
  by (simp add: set_stop_def map_update list_update_same_conv)

lemma startAt_try_stop: "map startAt (sources (try_stop i w s)) = map startAt (sources s)"
  by (simp add: try_stop_def source_stop_def startAt_set_stop)

lemma scheduleEventVoice_nodes:
  "\<exists>v. voices (scheduleEventVoice ctx t m la dKm s) = voices s @ [v] \<and>
       v_time v = t \<and>
       v_osc v = length (sources s) \<and> v_noiseSource v = Suc (length (sources s)) \<and>
       v_voiceGain v ! 0 = SetValueAtTime (Fin 0) (safeStart (Fin (currentTime ctx)) t) \<and>
       v_noiseGain v ! 0 = SetValueAtTime (Fin 0) (safeStart (Fin (currentTime ctx)) t)"
  by (simp add: scheduleEventVoice_def Let_def create_started_def set_stop_fields
      getNoiseBuffer_def split: prod.splits)

lemma scheduleEventVoice_transient:
  "transientNodesRef (scheduleEventVoice ctx t m la dKm s) =
     transientNodesRef s @ [length (sources s), Suc (length (sources s))]"
  by (simp add: scheduleEventVoice_def Let_def create_started_def set_stop_fields
      getNoiseBuffer_def split: prod.splits)

lemma scheduleEventVoice_startAt:
  "map startAt (sources (scheduleEventVoice ctx t m la dKm s)) =
     map startAt (sources s) @
       [Some (safeStart (Fin (currentTime ctx)) t), Some (safeStart (Fin (currentTime ctx)) t)]"
  by (simp add: scheduleEventVoice_def Let_def create_started_def startAt_set_stop
      set_stop_fields getNoiseBuffer_def split: prod.splits)

lemma length_fold_schedule_feature:
  "length (transientNodesRef (fold (schedule_feature ctx cb now mn ts) quakes s)) =
     length (transientNodesRef s) + 2 * length quakes"
  by (induction quakes arbitrary: s)
     (simp_all add: schedule_feature_def Let_def setTimeout_def scheduleEventVoice_transient
        split: prod.splits)

lemma transient_schedule:
  assumes "length quakes \<le> argLimit s"
  shows "length (transientNodesRef (schedule opts quakes ctx s)) =
     length (transientNodesRef s) + 2 * length quakes"
  by (simp add: schedule_within[OF assms] arm_end_timer_fields schedule_loop_def Let_def
      length_fold_schedule_feature clear_visualTimeouts_fields fade_in_drone_fields)

text \<open>
  C7. When the target time given to \<^verbatim>\<open>scheduleEventVoice\<close> is before the time the audio
  clock shows, the voice is built all the same: its oscillator and its noise source are
  created, started at the current clock time (\<^verbatim>\<open>safeStart\<close> is the clock time, and both
  envelopes begin there) and added to \<^verbatim>\<open>transientNodesRef\<close>. A \<^verbatim>\<open>start\<close> that
  schedules builds one voice, of two source nodes, for each event of the collection.
  And when there are events and audio, a \<^verbatim>\<open>start\<close> that does not schedule rejects
  (\<^verbatim>\<open>ctx.resume()\<close> rejected, or the events are more than the engine takes as
  arguments): it does not return as if it had played them.
\<close>

theorem past_onset_clamped:
  "(js_lt t (Fin (currentTime ctx)) \<longrightarrow>
      (\<exists>v. voices (scheduleEventVoice ctx t m la dKm s) = voices s @ [v] \<and>
           v_time v = t \<and>
           v_osc v = length (sources s) \<and> v_noiseSource v = Suc (length (sources s)) \<and>
           v_voiceGain v ! 0 = SetValueAtTime (Fin 0) (Fin (currentTime ctx)) \<and>
           v_noiseGain v ! 0 = SetValueAtTime (Fin 0) (Fin (currentTime ctx)) \<and>
           transientNodesRef (scheduleEventVoice ctx t m la dKm s) =
             transientNodesRef s @ [v_osc v, v_noiseSource v] \<and>
           map startAt (sources (scheduleEventVoice ctx t m la dKm s)) =
             map startAt (sources s) @
               [Some (Fin (currentTime ctx)), Some (Fin (currentTime ctx))])) \<and>
   (features opts = Some quakes \<and> start_schedules opts resumeOk s \<longrightarrow>
      length (voices (start opts resumeOk s)) = length (voices s) + length quakes \<and>
      length (transientNodesRef (start opts resumeOk s)) =
        length (transientNodesRef s) + 2 * length quakes) \<and>
   (features opts = Some quakes \<and> quakes \<noteq> [] \<and> isSupported s \<and>
    \<not> start_schedules opts resumeOk s \<longrightarrow>
      start_rejects opts resumeOk s \<and> (\<not> resumeOk \<or> argLimit s < length quakes))"
proof (intro conjI impI)
  assume past: "js_lt t (Fin (currentTime ctx))"
  obtain v where v: "voices (scheduleEventVoice ctx t m la dKm s) = voices s @ [v]"
    "v_time v = t" "v_osc v = length (sources s)" "v_noiseSource v = Suc (length (sources s))"
    "v_voiceGain v ! 0 = SetValueAtTime (Fin 0) (safeStart (Fin (currentTime ctx)) t)"
    "v_noiseGain v ! 0 = SetValueAtTime (Fin 0) (safeStart (Fin (currentTime ctx)) t)"
    using scheduleEventVoice_nodes by blast
  show "\<exists>v. voices (scheduleEventVoice ctx t m la dKm s) = voices s @ [v] \<and>
           v_time v = t \<and>
           v_osc v = length (sources s) \<and> v_noiseSource v = Suc (length (sources s)) \<and>
           v_voiceGain v ! 0 = SetValueAtTime (Fin 0) (Fin (currentTime ctx)) \<and>
           v_noiseGain v ! 0 = SetValueAtTime (Fin 0) (Fin (currentTime ctx)) \<and>
           transientNodesRef (scheduleEventVoice ctx t m la dKm s) =
             transientNodesRef s @ [v_osc v, v_noiseSource v] \<and>
           map startAt (sources (scheduleEventVoice ctx t m la dKm s)) =
             map startAt (sources s) @
               [Some (Fin (currentTime ctx)), Some (Fin (currentTime ctx))]"
    using v scheduleEventVoice_transient[of ctx t m la dKm s]
      scheduleEventVoice_startAt[of ctx t m la dKm s] safeStart_past[OF past]
    by (intro exI[of _ v]) simp
next
  assume a: "features opts = Some quakes \<and> start_schedules opts resumeOk s"
  obtain vs where vs: "voices (start opts resumeOk s) = voices s @ vs"
    "map v_time vs =
          map (\<lambda>f. onset (Fin (clockNow s)) startOffset
                     (Math_min_args (map f_time quakes))
                     (js_div (spanMs (Math_max_args (map f_time quakes))
                                (Math_min_args (map f_time quakes)))
                        (durationSec_of opts)) (f_time f))
            quakes"
    using voices_start[of opts quakes resumeOk s] a by blast
  have "length vs = length quakes"
    using vs(2) by (metis length_map)
  then show "length (voices (start opts resumeOk s)) = length (voices s) + length quakes"
    by (simp add: vs(1))
next
  assume a: "features opts = Some quakes \<and> start_schedules opts resumeOk s"
  obtain ctx' where ctx:
    "start opts resumeOk s = schedule opts quakes ctx' (s\<lparr>audioCtxRef := Some ctx'\<rparr>)"
    using start_eq_schedule[of opts quakes resumeOk s] a by blast
  have "length quakes \<le> argLimit (s\<lparr>audioCtxRef := Some ctx'\<rparr>)"
    using start_schedules_within[of opts quakes resumeOk s] a by simp
  from transient_schedule[OF this, of opts ctx']
  show "length (transientNodesRef (start opts resumeOk s)) =
        length (transientNodesRef s) + 2 * length quakes"
    by (simp add: ctx)
next
  assume a: "features opts = Some quakes \<and> quakes \<noteq> [] \<and> isSupported s \<and>
    \<not> start_schedules opts resumeOk s"
  then show "start_rejects opts resumeOk s"
    by (auto simp: start_schedules_def)
next
  assume a: "features opts = Some quakes \<and> quakes \<noteq> [] \<and> isSupported s \<and>
    \<not> start_schedules opts resumeOk s"
  then show "\<not> resumeOk \<or> argLimit s < length quakes"
    by (auto simp: start_schedules_def start_rejects_def split: option.splits)
qed

theorem past_onset_clamped_witness:
  "js_lt (Fin 3) (Fin 10) \<and>
   map startAt (sources (scheduleEventVoice \<lparr>ctxState = Running, currentTime = 10\<rparr>
     (Fin 3) (Fin 5) (Fin 0) (Fin 0) (init True 65535))) = [Some (Fin 10), Some (Fin 10)] \<and>
   transientNodesRef (scheduleEventVoice \<lparr>ctxState = Running, currentTime = 10\<rparr>
     (Fin 3) (Fin 5) (Fin 0) (Fin 0) (init True 65535)) = [0, 1] \<and>
   start_schedules two_quakes True (init True 65535) \<and>
   length (voices (start two_quakes True (init True 65535))) = 2 \<and>
   \<not> start_schedules two_quakes True (init True 1) \<and>
   start_rejects two_quakes True (init True 1)"
  using past_onset_clamped[of "Fin 3" "\<lparr>ctxState = Running, currentTime = 10\<rparr>"
      "Fin 5" "Fin 0" "Fin 0" "init True 65535" two_quakes "[quake_a, quake_b]" True]
    past_onset_clamped[of "Fin 3" "\<lparr>ctxState = Running, currentTime = 10\<rparr>"
      "Fin 5" "Fin 0" "Fin 0" "init True 1" two_quakes "[quake_a, quake_b]" True]
  by (auto simp: init_def two_quakes_def start_schedules_def start_rejects_def
      getAudioContext_def)

section \<open>The timers stay tracked\<close>

lemma setTimeout_fields:
  "fst (setTimeout cb d s) = nextTimerId s"
  "timers (snd (setTimeout cb d s)) = timers s @ [(nextTimerId s, d, cb)]"
  "nextTimerId (snd (setTimeout cb d s)) = Suc (nextTimerId s)"
  "endTimeoutRef (snd (setTimeout cb d s)) = endTimeoutRef s"
  "visualTimeoutsRef (snd (setTimeout cb d s)) = visualTimeoutsRef s"
  "notified (snd (setTimeout cb d s)) = notified s"
  by (simp_all add: setTimeout_def)

lemma loop_inv_schedule_feature:
  assumes "loop_inv n s"
  shows "loop_inv n (schedule_feature ctx cb now mn ts f s)"
proof (cases cb)
  case False
  with assms show ?thesis
    by (simp add: loop_inv_def timers_tracked_def schedule_feature_def Let_def
        scheduleEventVoice_fields)
next
  case True
  define s1 where "s1 = scheduleEventVoice ctx (onset now startOffset mn ts (f_time f)) (f_mag f)
     (fst (snd (f_coordinates f))) (snd (snd (f_coordinates f))) s"
  have s1: "timers s1 = timers s" "nextTimerId s1 = nextTimerId s"
    "endTimeoutRef s1 = endTimeoutRef s" "visualTimeoutsRef s1 = visualTimeoutsRef s"
    by (simp_all add: s1_def scheduleEventVoice_fields)
  have fresh: "nextTimerId s \<notin> fst ` set (timers s)"
    using assms by (auto simp: loop_inv_def timers_tracked_def)
  show ?thesis
    using assms True fresh
    unfolding loop_inv_def timers_tracked_def schedule_feature_def Let_def s1_def[symmetric]
    by (auto simp: setTimeout_def s1 is_end_def split: prod.splits)
qed

lemma loop_inv_fold:
  "loop_inv n s \<Longrightarrow> loop_inv n (fold (schedule_feature ctx cb now mn ts) quakes s)"
  by (induction quakes arbitrary: s) (simp_all add: loop_inv_schedule_feature)

lemma tracked_clear_visual:
  assumes "timers_tracked s"
  shows "loop_inv (nextTimerId s) (clear_visualTimeouts s)"
  using assms
  by (auto simp: loop_inv_def timers_tracked_def clear_visualTimeouts_fields distinct_map_filter)

lemma loop_inv_schedule_loop:
  assumes "timers_tracked s"
  shows "loop_inv (nextTimerId s) (schedule_loop opts quakes ctx mn mx s)"
  unfolding schedule_loop_def Let_def
  using tracked_clear_visual[OF assms] by (rule loop_inv_fold)

lemma arm_end_timer_eq:
  "arm_end_timer opts ctx s =
     (snd (setTimeout EndOfPlayback
             (js_mul (js_sub (js_add (js_add (js_add (Fin (currentTime ctx)) startOffset)
                (durationSec_of opts)) (Fin 10)) (Fin (currentTime ctx))) (Fin 1000))
             (if ref_truthy (endTimeoutRef s)
              then clearTimeout (the (endTimeoutRef s)) (s\<lparr>isPlaying := True\<rparr>)
              else s\<lparr>isPlaying := True\<rparr>)))
       \<lparr>endTimeoutRef := Some (nextTimerId s)\<rparr>"
  by (simp add: arm_end_timer_def Let_def setTimeout_def clearTimeout_fields split: prod.splits)

lemma tracked_arm_end_timer:
  assumes "loop_inv n s"
  shows "timers_tracked (arm_end_timer opts ctx s) \<and>
         (\<forall>t \<in> set (timers (arm_end_timer opts ctx s)). n \<le> fst t) \<and>
         n \<le> nextTimerId (arm_end_timer opts ctx s)"
proof -
  define s6 where "s6 = (if ref_truthy (endTimeoutRef s)
     then clearTimeout (the (endTimeoutRef s)) (s\<lparr>isPlaying := True\<rparr>)
     else s\<lparr>isPlaying := True\<rparr>)"
  have no_end: "\<forall>t \<in> set (timers s6). \<not> is_end t"
    using assms
    by (auto simp: s6_def loop_inv_def timers_tracked_def clearTimeout_fields ref_truthy_def
        split: option.splits)
  have l6: "loop_inv n s6"
    using assms
    by (auto simp: s6_def loop_inv_def timers_tracked_def clearTimeout_fields distinct_map_filter)
  have n6: "nextTimerId s6 = nextTimerId s"
    by (simp add: s6_def clearTimeout_fields)
  show ?thesis
    unfolding arm_end_timer_eq s6_def[symmetric] using l6 no_end n6
    by (auto simp: loop_inv_def timers_tracked_def setTimeout_def is_end_def)
qed

lemma tracked_fade_in_drone:
  "timers_tracked s \<Longrightarrow> timers_tracked (fade_in_drone ctx s)"
  by (simp add: timers_tracked_def fade_in_drone_fields)

lemma tracked_schedule:
  assumes "timers_tracked s" "length quakes \<le> argLimit s"
  shows "timers_tracked (schedule opts quakes ctx s) \<and>
         (\<forall>t \<in> set (timers (schedule opts quakes ctx s)). nextTimerId s \<le> fst t) \<and>
         nextTimerId s \<le> nextTimerId (schedule opts quakes ctx s)"
proof -
  have "loop_inv (nextTimerId (fade_in_drone ctx s))
          (schedule_loop opts quakes ctx (Math_min_args (map f_time quakes))
             (Math_max_args (map f_time quakes)) (fade_in_drone ctx s))"
    using tracked_fade_in_drone[OF assms(1)] by (rule loop_inv_schedule_loop)
  then have "loop_inv (nextTimerId s)
          (schedule_loop opts quakes ctx (Math_min_args (map f_time quakes))
             (Math_max_args (map f_time quakes)) (fade_in_drone ctx s))"
    by (simp add: fade_in_drone_fields)
  from tracked_arm_end_timer[OF this, of opts ctx] show ?thesis
    by (simp add: schedule_within[OF assms(2)])
qed


lemma getAudioContext_fields:
  "timers (snd (getAudioContext s)) = timers s"
  "nextTimerId (snd (getAudioContext s)) = nextTimerId s"
  "endTimeoutRef (snd (getAudioContext s)) = endTimeoutRef s"
  "visualTimeoutsRef (snd (getAudioContext s)) = visualTimeoutsRef s"
  "notified (snd (getAudioContext s)) = notified s"
  "droneRef (snd (getAudioContext s)) = droneRef s"
  "sources (snd (getAudioContext s)) = sources s"
  "transientNodesRef (snd (getAudioContext s)) = transientNodesRef s"
  "voices (snd (getAudioContext s)) = voices s"
  "isPlaying (snd (getAudioContext s)) = isPlaying s"
  "isSupported (snd (getAudioContext s)) = isSupported s"
  "argLimit (snd (getAudioContext s)) = argLimit s"
  by (simp_all add: getAudioContext_def split: option.splits)

lemma start_noop:
  "\<not> start_schedules opts resumeOk s \<Longrightarrow>
   start opts resumeOk s = s \<or> start opts resumeOk s = snd (getAudioContext s) \<or>
   (\<exists>ctx. start opts resumeOk s =
      fade_in_drone ctx ((snd (getAudioContext s))\<lparr>audioCtxRef := Some ctx\<rparr>))"
  by (auto simp: start_def start_schedules_def start_rejects_def Let_def getAudioContext_def
      schedule_beyond split: option.splits prod.splits)

lemma start_noop_fields:
  assumes "\<not> start_schedules opts resumeOk s"
  shows "timers (start opts resumeOk s) = timers s"
    "nextTimerId (start opts resumeOk s) = nextTimerId s"
    "endTimeoutRef (start opts resumeOk s) = endTimeoutRef s"
    "visualTimeoutsRef (start opts resumeOk s) = visualTimeoutsRef s"
    "notified (start opts resumeOk s) = notified s"
    "transientNodesRef (start opts resumeOk s) = transientNodesRef s"
    "isPlaying (start opts resumeOk s) = isPlaying s"
    "voices (start opts resumeOk s) = voices s"
    "isSupported (start opts resumeOk s) = isSupported s"
    "argLimit (start opts resumeOk s) = argLimit s"
  using start_noop[OF assms] by (auto simp: getAudioContext_fields fade_in_drone_fields)

lemma tracked_start_schedules:
  assumes "timers_tracked s" "start_schedules opts resumeOk s"
  shows "timers_tracked (start opts resumeOk s) \<and>
         (\<forall>t \<in> set (timers (start opts resumeOk s)). nextTimerId s \<le> fst t) \<and>
         nextTimerId s \<le> nextTimerId (start opts resumeOk s)"
proof -
  obtain quakes where q: "features opts = Some quakes"
    using assms(2) by (auto simp: start_schedules_def split: option.splits)
  obtain ctx where ctx:
    "start opts resumeOk s = schedule opts quakes ctx (s\<lparr>audioCtxRef := Some ctx\<rparr>)"
    using start_eq_schedule[OF q assms(2)] by blast
  have "timers_tracked (s\<lparr>audioCtxRef := Some ctx\<rparr>)"
    using assms(1) by (simp add: timers_tracked_def)
  moreover have "length quakes \<le> argLimit (s\<lparr>audioCtxRef := Some ctx\<rparr>)"
    using start_schedules_within[OF q assms(2)] by simp
  ultimately show ?thesis
    using tracked_schedule[of "s\<lparr>audioCtxRef := Some ctx\<rparr>" quakes opts ctx]
    by (simp add: ctx)
qed

lemma tracked_start:
  "timers_tracked s \<Longrightarrow> timers_tracked (start opts resumeOk s)"
  using tracked_start_schedules[of s opts resumeOk] start_noop_fields[of opts resumeOk s]
  by (cases "start_schedules opts resumeOk s") (auto simp: timers_tracked_def)

lemma fold_try_stop_fields:
  "isSupported (fold (\<lambda>i. try_stop i w) ns s) = isSupported s"
  "isPlaying (fold (\<lambda>i. try_stop i w) ns s) = isPlaying s"
  "audioCtxRef (fold (\<lambda>i. try_stop i w) ns s) = audioCtxRef s"
  "droneRef (fold (\<lambda>i. try_stop i w) ns s) = droneRef s"
  "endTimeoutRef (fold (\<lambda>i. try_stop i w) ns s) = endTimeoutRef s"
  "transientNodesRef (fold (\<lambda>i. try_stop i w) ns s) = transientNodesRef s"
  "visualTimeoutsRef (fold (\<lambda>i. try_stop i w) ns s) = visualTimeoutsRef s"
  "voices (fold (\<lambda>i. try_stop i w) ns s) = voices s"
  "timers (fold (\<lambda>i. try_stop i w) ns s) = timers s"
  "nextTimerId (fold (\<lambda>i. try_stop i w) ns s) = nextTimerId s"
  "notified (fold (\<lambda>i. try_stop i w) ns s) = notified s"
  "length (sources (fold (\<lambda>i. try_stop i w) ns s)) = length (sources s)"
  "map startAt (sources (fold (\<lambda>i. try_stop i w) ns s)) = map startAt (sources s)"
  "argLimit (fold (\<lambda>i. try_stop i w) ns s) = argLimit s"
  by (induction ns arbitrary: s; simp add: try_stop_fields startAt_try_stop)+

lemma stop_drone_fields:
  "isSupported (stop_drone s) = isSupported s"
  "isPlaying (stop_drone s) = isPlaying s"
  "audioCtxRef (stop_drone s) = audioCtxRef s"
  "endTimeoutRef (stop_drone s) = endTimeoutRef s"
  "transientNodesRef (stop_drone s) = transientNodesRef s"
  "visualTimeoutsRef (stop_drone s) = visualTimeoutsRef s"
  "voices (stop_drone s) = voices s"
  "timers (stop_drone s) = timers s"
  "nextTimerId (stop_drone s) = nextTimerId s"
  "notified (stop_drone s) = notified s"
  "length (sources (stop_drone s)) = length (sources s)"
  "map startAt (sources (stop_drone s)) = map startAt (sources s)"
  "argLimit (stop_drone s) = argLimit s"
  by (simp_all add: stop_drone_def Let_def fold_try_stop_fields split: option.splits)

lemma stop_fields:
  "isSupported (stop s) = isSupported s"
  "isPlaying (stop s) = False"
  "audioCtxRef (stop s) = audioCtxRef s"
  "transientNodesRef (stop s) = []"
  "visualTimeoutsRef (stop s) = []"
  "voices (stop s) = voices s"
  "nextTimerId (stop s) = nextTimerId s"
  "notified (stop s) = notified s"
  "length (sources (stop s)) = length (sources s)"
  "map startAt (sources (stop s)) = map startAt (sources s)"
  "endTimeoutRef (stop s) = (if ref_truthy (endTimeoutRef s) then None else endTimeoutRef s)"
  "timers (stop s) =
     filter (\<lambda>t. \<not> (ref_truthy (endTimeoutRef s) \<and> endTimeoutRef s = Some (fst t)))
       (filter (\<lambda>t. fst t \<notin> set (visualTimeoutsRef s)) (timers s))"
  "argLimit (stop s) = argLimit s"
  by (auto simp: stop_def Let_def clear_visualTimeouts_fields clearTimeout_fields
      fold_try_stop_fields stop_drone_fields ref_truthy_def split: option.splits
      intro!: filter_cong)

lemma timers_stop:
  assumes "timers_tracked s"
  shows "timers (stop s) = []"
  using assms
  by (auto simp: stop_fields timers_tracked_def filter_empty_conv ref_truthy_def
      split: if_splits)

lemma tracked_stop: "timers_tracked s \<Longrightarrow> timers_tracked (stop s)"
  using timers_stop[of s] by (simp add: timers_tracked_def stop_fields)

lemma run_callback_fields:
  "isSupported (run_callback i cb s) = isSupported s"
  "audioCtxRef (run_callback i cb s) = audioCtxRef s"
  "endTimeoutRef (run_callback i cb s) = endTimeoutRef s"
  "transientNodesRef (run_callback i cb s) = transientNodesRef s"
  "visualTimeoutsRef (run_callback i cb s) = visualTimeoutsRef s"
  "voices (run_callback i cb s) = voices s"
  "timers (run_callback i cb s) = timers s"
  "nextTimerId (run_callback i cb s) = nextTimerId s"
  "sources (run_callback i cb s) = sources s"
  "argLimit (run_callback i cb s) = argLimit s"
  by (simp_all add: run_callback_def Let_def split: callback.splits option.splits)

lemma fire_fields:
  "isSupported (fire i s) = isSupported s"
  "audioCtxRef (fire i s) = audioCtxRef s"
  "endTimeoutRef (fire i s) = endTimeoutRef s"
  "transientNodesRef (fire i s) = transientNodesRef s"
  "visualTimeoutsRef (fire i s) = visualTimeoutsRef s"
  "voices (fire i s) = voices s"
  "nextTimerId (fire i s) = nextTimerId s"
  "sources (fire i s) = sources s"
  "argLimit (fire i s) = argLimit s"
  by (simp_all add: fire_def run_callback_fields clearTimeout_fields split: option.splits)

lemma timers_fire: "set (timers (fire i s)) \<subseteq> set (timers s)"
  "distinct (map fst (timers s)) \<Longrightarrow> distinct (map fst (timers (fire i s)))"
  by (auto simp: fire_def run_callback_fields clearTimeout_fields distinct_map_filter
      split: option.splits)

lemma tracked_fire: "timers_tracked s \<Longrightarrow> timers_tracked (fire i s)"
  using timers_fire[where i = i and s = s]
  unfolding timers_tracked_def fire_fields by (meson subsetD)

lemma tracked_step: "timers_tracked s \<Longrightarrow> timers_tracked (step x s)"
  by (cases x) (auto simp: tracked_start tracked_stop tracked_fire,
      auto simp: timers_tracked_def ended_def advance_def)

lemma tracked_run: "timers_tracked s \<Longrightarrow> timers_tracked (run ops s)"
  unfolding run_def by (induction ops arbitrary: s) (simp_all add: tracked_step)

lemma tracked_init: "timers_tracked (init supported maxArgs)"
  by (simp add: timers_tracked_def init_def)

section \<open>Timers across a run\<close>

lemma one_end_timer:
  assumes "timers_tracked s"
  shows "length (filter is_end (timers s)) \<le> 1"
proof -
  let ?es = "filter is_end (timers s)"
  have d: "distinct (map fst ?es)"
    using assms by (simp add: timers_tracked_def distinct_map_filter)
  have "set (map fst ?es) \<subseteq> set_option (endTimeoutRef s)"
    using assms by (auto simp: timers_tracked_def)
  then have "card (set (map fst ?es)) \<le> card (set_option (endTimeoutRef s))"
    by (intro card_mono) auto
  also have "\<dots> \<le> 1"
    by (cases "endTimeoutRef s") auto
  finally show ?thesis
    using distinct_card[OF d] by simp
qed

lemma fold_schedule_feature_notified:
  "notified (fold (schedule_feature ctx cb now mn ts) quakes s) = notified s"
  by (induction quakes arbitrary: s) (simp_all add: schedule_feature_fields)

lemma fold_schedule_feature_platform:
  "isSupported (fold (schedule_feature ctx cb now mn ts) quakes s) = isSupported s"
  "argLimit (fold (schedule_feature ctx cb now mn ts) quakes s) = argLimit s"
  by (induction quakes arbitrary: s) (simp_all add: schedule_feature_fields)

lemma notified_schedule: "notified (schedule opts quakes ctx s) = notified s"
  by (cases "length quakes \<le> argLimit s")
     (simp_all add: schedule_within schedule_beyond arm_end_timer_fields schedule_loop_def
        Let_def fold_schedule_feature_notified clear_visualTimeouts_fields
        fade_in_drone_fields)

lemma notified_start: "notified (start opts resumeOk s) = notified s"
proof (cases "start_schedules opts resumeOk s")
  case True
  then obtain quakes where q: "features opts = Some quakes"
    by (auto simp: start_schedules_def split: option.splits)
  from start_eq_schedule[OF q True] show ?thesis
    by (auto simp: notified_schedule)
next
  case False
  then show ?thesis by (simp add: start_noop_fields)
qed

lemma notified_step:
  "\<exists>es. notified (step x s) = notified s @ es \<and> (\<forall>e \<in> set es. fst e \<in> fst ` set (timers s))"
proof (cases x)
  case (Fire i)
  show ?thesis
  proof (cases "find (\<lambda>t. fst t = i) (timers s)")
    case None
    with Fire show ?thesis by (simp add: fire_def)
  next
    case (Some t)
    then have "t \<in> set (timers s)" "fst t = i"
      by (auto simp: find_Some_iff)
    with Fire Some show ?thesis
      by (cases "snd (snd t)")
         (auto simp: fire_def run_callback_def clearTimeout_fields Let_def split: option.splits)
  qed
qed (simp_all add: notified_start stop_fields ended_def advance_def)

lemma timers_step:
  assumes "timers_tracked s" "t \<in> set (timers (step x s))"
  shows "t \<in> set (timers s) \<or> nextTimerId s \<le> fst t"
proof (cases x)
  case (Start opts resumeOk)
  with assms tracked_start_schedules[of s opts resumeOk] start_noop_fields(1)[of opts resumeOk s]
  show ?thesis
    by (cases "start_schedules opts resumeOk s") auto
next
  case Stop
  with assms show ?thesis by (simp add: stop_fields)
next
  case (Fire i)
  with assms timers_fire(1)[of i s] show ?thesis by auto
next
  case (Ended i)
  with assms show ?thesis by (simp add: ended_def)
next
  case (Advance d)
  with assms show ?thesis by (simp add: advance_def)
qed

lemma nextTimerId_step:
  assumes "timers_tracked s"
  shows "nextTimerId s \<le> nextTimerId (step x s)"
proof (cases x)
  case (Start opts resumeOk)
  with assms tracked_start_schedules[of s opts resumeOk] start_noop_fields(2)[of opts resumeOk s]
  show ?thesis
    by (cases "start_schedules opts resumeOk s") auto
qed (simp_all add: stop_fields fire_fields ended_def advance_def)

lemma later_callbacks:
  assumes "timers_tracked s" "\<forall>t \<in> set (timers s). n \<le> fst t" "n \<le> nextTimerId s"
  shows "\<exists>es. notified (run ops s) = notified s @ es \<and> (\<forall>e \<in> set es. n \<le> fst e)"
  using assms
proof (induction ops arbitrary: s)
  case Nil
  show ?case by (simp add: run_def)
next
  case (Cons x ops)
  obtain es1 where es1: "notified (step x s) = notified s @ es1"
    "\<forall>e \<in> set es1. fst e \<in> fst ` set (timers s)"
    using notified_step by blast
  have tr: "timers_tracked (step x s)"
    using Cons.prems(1) by (rule tracked_step)
  have all: "\<forall>t \<in> set (timers (step x s)). n \<le> fst t"
    using timers_step[OF Cons.prems(1)] Cons.prems(2,3) by fastforce
  have nx: "n \<le> nextTimerId (step x s)"
    using nextTimerId_step[OF Cons.prems(1), of x] Cons.prems(3) by simp
  obtain es2 where es2: "notified (run ops (step x s)) = notified (step x s) @ es2"
    "\<forall>e \<in> set es2. n \<le> fst e"
    using Cons.IH[OF tr all nx] by blast
  have "\<forall>e \<in> set es1. n \<le> fst e"
    using es1(2) Cons.prems(2) by (metis imageE)
  with es1 es2 show ?case
    by (intro exI[of _ "es1 @ es2"]) (auto simp: run_def)
qed

lemma mark_step_ok:
  assumes "timers_tracked s" "\<forall>t \<in> set (timers s). m \<le> fst t" "m \<le> nextTimerId s"
  shows "(\<forall>t \<in> set (timers (step x s)). mark_step x s m \<le> fst t) \<and>
         mark_step x s m \<le> nextTimerId (step x s)"
proof (cases x)
  case (Start opts resumeOk)
  with assms tracked_start_schedules[of s opts resumeOk]
    start_noop_fields(1,2)[of opts resumeOk s]
  show ?thesis
    by (cases "start_schedules opts resumeOk s") (auto simp: mark_step_def)
next
  case Stop
  with assms show ?thesis by (auto simp: mark_step_def stop_fields)
next
  case (Fire i)
  with assms timers_fire(1)[of i s] show ?thesis
    by (auto simp: mark_step_def fire_fields)
next
  case (Ended i)
  with assms show ?thesis by (auto simp: mark_step_def ended_def)
next
  case (Advance d)
  with assms show ?thesis by (auto simp: mark_step_def advance_def)
qed

lemma mark_run:
  assumes "timers_tracked s" "\<forall>t \<in> set (timers s). m \<le> fst t" "m \<le> nextTimerId s"
  shows "(\<forall>t \<in> set (timers (run ops s)). last_start_mark ops s m \<le> fst t) \<and>
         last_start_mark ops s m \<le> nextTimerId (run ops s)"
  using assms
proof (induction ops arbitrary: s m)
  case Nil
  then show ?case by (simp add: run_def)
next
  case (Cons x ops)
  have tr: "timers_tracked (step x s)"
    using Cons.prems(1) by (rule tracked_step)
  have st: "\<forall>t \<in> set (timers (step x s)). mark_step x s m \<le> fst t"
    "mark_step x s m \<le> nextTimerId (step x s)"
    using mark_step_ok[OF Cons.prems, of x] by simp_all
  from Cons.IH[OF tr st] show ?case
    by (simp add: run_def)
qed

lemma end_timer_armed:
  assumes "start_schedules opts resumeOk s"
  shows "\<exists>d. timers (start opts resumeOk s) \<noteq> [] \<and>
           last (timers (start opts resumeOk s)) =
             (the (endTimeoutRef (start opts resumeOk s)), d, EndOfPlayback)"
proof -
  obtain quakes where q: "features opts = Some quakes"
    using assms by (auto simp: start_schedules_def split: option.splits)
  obtain ctx where ctx:
    "start opts resumeOk s = schedule opts quakes ctx (s\<lparr>audioCtxRef := Some ctx\<rparr>)"
    using start_eq_schedule[OF q assms] by blast
  have w: "length quakes \<le> argLimit (s\<lparr>audioCtxRef := Some ctx\<rparr>)"
    using start_schedules_within[OF q assms] by simp
  show ?thesis
    unfolding ctx schedule_within[OF w] arm_end_timer_eq
    by (simp add: setTimeout_def clearTimeout_fields)
qed

lemma fire_nothing: "timers s = [] \<Longrightarrow> fire i s = s"
  by (simp add: fire_def)

lemma start_schedules_resumeOk:
  "start_schedules opts True s =
     (case features opts of
        None \<Rightarrow> False
      | Some quakes \<Rightarrow> quakes \<noteq> [] \<and> isSupported s \<and> length quakes \<le> argLimit s)"
  by (auto simp: start_schedules_def start_rejects_def getAudioContext_def
      split: option.splits)

lemma start_platform:
  "isSupported (start opts resumeOk s) = isSupported s"
  "argLimit (start opts resumeOk s) = argLimit s"
proof -
  have "isSupported (start opts resumeOk s) = isSupported s \<and>
        argLimit (start opts resumeOk s) = argLimit s"
  proof (cases "start_schedules opts resumeOk s")
    case True
    then obtain quakes where q: "features opts = Some quakes"
      by (auto simp: start_schedules_def split: option.splits)
    obtain ctx where ctx:
      "start opts resumeOk s = schedule opts quakes ctx (s\<lparr>audioCtxRef := Some ctx\<rparr>)"
      using start_eq_schedule[OF q True] by blast
    have w: "length quakes \<le> argLimit (s\<lparr>audioCtxRef := Some ctx\<rparr>)"
      using start_schedules_within[OF q True] by simp
    show ?thesis
      unfolding ctx schedule_within[OF w]
      by (simp add: arm_end_timer_fields schedule_loop_def Let_def
          fold_schedule_feature_platform clear_visualTimeouts_fields fade_in_drone_fields)
  next
    case False
    then show ?thesis by (simp add: start_noop_fields)
  qed
  then show "isSupported (start opts resumeOk s) = isSupported s"
    "argLimit (start opts resumeOk s) = argLimit s"
    by simp_all
qed

lemma timers_schedule_feature:
  "map (\<lambda>t. (fst t, snd (snd t))) (timers (schedule_feature ctx True now mn ts f s)) =
     map (\<lambda>t. (fst t, snd (snd t))) (timers s) @ [(nextTimerId s, OnEvent f)]"
  "nextTimerId (schedule_feature ctx True now mn ts f s) = Suc (nextTimerId s)"
  by (simp_all add: schedule_feature_def Let_def setTimeout_def scheduleEventVoice_fields
      split: prod.splits)

lemma loop_keeps_end_timers:
  "set (timers (schedule_feature ctx cb now mn ts f s)) \<subseteq> set (timers s) \<union> {t. \<not> is_end t}"
  by (auto simp: schedule_feature_def Let_def setTimeout_def scheduleEventVoice_fields
      is_end_def split: prod.splits)

lemma fold_keeps_end_timers:
  "set (timers (fold (schedule_feature ctx cb now mn ts) quakes s))
     \<subseteq> set (timers s) \<union> {t. \<not> is_end t}"
proof (induction quakes arbitrary: s)
  case Nil
  show ?case by simp
next
  case (Cons f quakes)
  from Cons.IH[of "schedule_feature ctx cb now mn ts f s"]
    loop_keeps_end_timers[of ctx cb now mn ts f s]
  show ?case by auto
qed

lemma timers_after_loop:
  assumes "timers_tracked s" "t \<in> set (timers (schedule_loop opts quakes ctx mn mx (fade_in_drone ctx s)))"
  shows "if is_end t then t \<in> set (timers s) else nextTimerId s \<le> fst t"
proof (cases "is_end t")
  case True
  have "t \<in> set (timers (clear_visualTimeouts (fade_in_drone ctx s)))"
    using assms(2) True
      fold_keeps_end_timers[of ctx "onEvent opts" "Fin (currentTime ctx)" mn
        "js_div (spanMs mx mn) (durationSec_of opts)" quakes
        "clear_visualTimeouts (fade_in_drone ctx s)"]
    by (auto simp: schedule_loop_def Let_def)
  then have "t \<in> set (timers s)"
    by (simp add: clear_visualTimeouts_fields fade_in_drone_fields)
  with True show ?thesis by simp
next
  case False
  have "loop_inv (nextTimerId (fade_in_drone ctx s))
          (schedule_loop opts quakes ctx mn mx (fade_in_drone ctx s))"
    using tracked_fade_in_drone[OF assms(1)] by (rule loop_inv_schedule_loop)
  with assms(2) False show ?thesis
    by (auto simp: loop_inv_def fade_in_drone_fields)
qed

text \<open>
  C10, as the code has it. A \<^verbatim>\<open>start\<close> that schedules clears every pending visual timer
  before its loop arms the new ones: at the end of the loop the only timer left from
  before is the end-of-playback timer, if one was pending, and every other pending timer
  is new. That end-of-playback timer is cleared next, just before the new one is armed,
  so after the \<^verbatim>\<open>start\<close> no timer that was pending before it is pending any more.
  A \<^verbatim>\<open>start\<close> that does not schedule (no events, no audio, a rejection) clears no
  timer and arms none. So at every state a mounted hook can reach: at most one
  end-of-playback timer is pending, and it is the one in \<^verbatim>\<open>endTimeoutRef\<close>; every
  pending visual timer is listed in \<^verbatim>\<open>visualTimeoutsRef\<close>; and every pending timer was
  armed by the most recent \<^verbatim>\<open>start\<close> that scheduled (its identifier is not below the one
  the platform was about to give when that \<^verbatim>\<open>start\<close> began).
\<close>

theorem timers_of_last_start:
  "length (filter is_end (timers (run ops (init supported maxArgs)))) \<le> 1 \<and>
   (\<forall>t \<in> set (timers (run ops (init supported maxArgs))).
      last_start_mark ops (init supported maxArgs) 1 \<le> fst t \<and>
      fst t < nextTimerId (run ops (init supported maxArgs)) \<and>
      (if is_end t then endTimeoutRef (run ops (init supported maxArgs)) = Some (fst t)
       else fst t \<in> set (visualTimeoutsRef (run ops (init supported maxArgs))))) \<and>
   (\<forall>t \<in> set (timers (schedule_loop opts quakes ctx mn mx
                       (fade_in_drone ctx (run ops (init supported maxArgs))))).
      if is_end t then t \<in> set (timers (run ops (init supported maxArgs)))
      else nextTimerId (run ops (init supported maxArgs)) \<le> fst t) \<and>
   (start_schedules opts resumeOk (run ops (init supported maxArgs)) \<longrightarrow>
      (\<forall>t \<in> set (timers (start opts resumeOk (run ops (init supported maxArgs)))).
         nextTimerId (run ops (init supported maxArgs)) \<le> fst t)) \<and>
   (\<not> start_schedules opts resumeOk (run ops (init supported maxArgs)) \<longrightarrow>
      timers (start opts resumeOk (run ops (init supported maxArgs))) =
        timers (run ops (init supported maxArgs)) \<and>
      nextTimerId (start opts resumeOk (run ops (init supported maxArgs))) =
        nextTimerId (run ops (init supported maxArgs)) \<and>
      endTimeoutRef (start opts resumeOk (run ops (init supported maxArgs))) =
        endTimeoutRef (run ops (init supported maxArgs)) \<and>
      visualTimeoutsRef (start opts resumeOk (run ops (init supported maxArgs))) =
        visualTimeoutsRef (run ops (init supported maxArgs)))"
proof -
  let ?s = "run ops (init supported maxArgs)"
  have tr: "timers_tracked ?s"
    using tracked_init by (rule tracked_run)
  have m: "\<forall>t \<in> set (timers ?s). last_start_mark ops (init supported maxArgs) 1 \<le> fst t"
    using mark_run[OF tracked_init, where m = 1 and ops = ops and supported1 = supported
        and maxArgs1 = maxArgs]
    by (simp add: init_def)
  have a: "length (filter is_end (timers ?s)) \<le> 1"
    using tr by (rule one_end_timer)
  have b: "\<forall>t \<in> set (timers ?s).
      last_start_mark ops (init supported maxArgs) 1 \<le> fst t \<and>
      fst t < nextTimerId ?s \<and>
      (if is_end t then endTimeoutRef ?s = Some (fst t)
       else fst t \<in> set (visualTimeoutsRef ?s))"
    using m tr by (auto simp: timers_tracked_def)
  have c: "\<forall>t \<in> set (timers (schedule_loop opts quakes ctx mn mx (fade_in_drone ctx ?s))).
      if is_end t then t \<in> set (timers ?s) else nextTimerId ?s \<le> fst t"
    using timers_after_loop[OF tr] by blast
  have d: "start_schedules opts resumeOk ?s \<longrightarrow>
      (\<forall>t \<in> set (timers (start opts resumeOk ?s)). nextTimerId ?s \<le> fst t)"
    using tracked_start_schedules[OF tr, of opts resumeOk] by blast
  have e: "\<not> start_schedules opts resumeOk ?s \<longrightarrow>
      timers (start opts resumeOk ?s) = timers ?s \<and>
      nextTimerId (start opts resumeOk ?s) = nextTimerId ?s \<and>
      endTimeoutRef (start opts resumeOk ?s) = endTimeoutRef ?s \<and>
      visualTimeoutsRef (start opts resumeOk ?s) = visualTimeoutsRef ?s"
    by (simp add: start_noop_fields)
  from a b c d e show ?thesis
    by (intro conjI)
qed

theorem timers_of_last_start_witness:
  "last_start_mark [Start two_quakes True] (init True 65535) 1 = 1 \<and>
   timers (run [Start two_quakes True] (init True 65535)) \<noteq> [] \<and>
   length (filter is_end (timers (run [Start two_quakes True] (init True 65535)))) \<le> 1 \<and>
   start_schedules two_quakes True (run [Start two_quakes True] (init True 65535)) \<and>
   \<not> start_schedules no_quakes True (run [Start two_quakes True] (init True 65535)) \<and>
   timers (start no_quakes True (run [Start two_quakes True] (init True 65535))) =
     timers (run [Start two_quakes True] (init True 65535))"
proof -
  have a: "start_schedules two_quakes True (init True 65535)"
    by (simp add: start_schedules_resumeOk two_quakes_def init_def)
  have m: "last_start_mark [Start two_quakes True] (init True 65535) 1 = 1"
    using a by (simp add: mark_step_def init_def)
  have ne: "timers (run [Start two_quakes True] (init True 65535)) \<noteq> []"
    using end_timer_armed[OF a] by (auto simp: run_def)
  have ss: "start_schedules two_quakes True (run [Start two_quakes True] (init True 65535))"
    by (simp add: run_def start_schedules_resumeOk start_platform two_quakes_def init_def)
  have ns: "\<not> start_schedules no_quakes True (run [Start two_quakes True] (init True 65535))"
    by (simp add: start_schedules_resumeOk no_quakes_def)
  from m ne ss ns
    timers_of_last_start[where ops = "[Start two_quakes True]" and supported = True
      and maxArgs = 65535 and opts = two_quakes and resumeOk = True]
    timers_of_last_start[where ops = "[Start two_quakes True]" and supported = True
      and maxArgs = 65535 and opts = no_quakes and resumeOk = True]
  show ?thesis by blast
qed


text \<open>
  C5. After \<^verbatim>\<open>stop\<close>, at any state a mounted hook can reach: \<^verbatim>\<open>transientNodesRef\<close> is
  empty and no timer is pending, visual or end-of-playback. Whatever happens later,
  every call of \<^verbatim>\<open>onEvent\<close> made after the \<^verbatim>\<open>stop\<close> comes from a timer armed after it:
  the timers pending before the \<^verbatim>\<open>stop\<close> had smaller identifiers.
\<close>

theorem stop_clears_voices_and_timers:
  "transientNodesRef (stop (run ops (init supported maxArgs))) = [] \<and>
   timers (stop (run ops (init supported maxArgs))) = [] \<and>
   visualTimeoutsRef (stop (run ops (init supported maxArgs))) = [] \<and>
   (\<forall>t \<in> set (timers (run ops (init supported maxArgs))).
      fst t < nextTimerId (run ops (init supported maxArgs))) \<and>
   (\<exists>es. notified (run later (stop (run ops (init supported maxArgs)))) =
           notified (run ops (init supported maxArgs)) @ es \<and>
         (\<forall>e \<in> set es. nextTimerId (run ops (init supported maxArgs)) \<le> fst e))"
proof -
  let ?s = "run ops (init supported maxArgs)"
  have tr: "timers_tracked ?s"
    using tracked_init by (rule tracked_run)
  have none: "timers (stop ?s) = []"
    using tr by (rule timers_stop)
  have p1: "\<forall>t \<in> set (timers (stop ?s)). nextTimerId ?s \<le> fst t"
    by (simp add: none)
  have p2: "nextTimerId ?s \<le> nextTimerId (stop ?s)"
    by (simp add: stop_fields)
  have "\<exists>es. notified (run later (stop ?s)) = notified (stop ?s) @ es \<and>
          (\<forall>e \<in> set es. nextTimerId ?s \<le> fst e)"
    using tracked_stop[OF tr] p1 p2 by (rule later_callbacks)
  then have later: "\<exists>es. notified (run later (stop ?s)) = notified ?s @ es \<and>
          (\<forall>e \<in> set es. nextTimerId ?s \<le> fst e)"
    by (simp add: stop_fields)
  have old: "\<forall>t \<in> set (timers ?s). fst t < nextTimerId ?s"
    using tr by (simp add: timers_tracked_def)
  from none later old show ?thesis
    by (simp add: stop_fields)
qed

theorem stop_clears_voices_and_timers_witness:
  "timers (run [Start two_quakes True] (init True 65535)) \<noteq> [] \<and>
   timers (stop (run [Start two_quakes True] (init True 65535))) = [] \<and>
   notified (run [Fire 1, Fire 2, Fire 3] (stop (run [Start two_quakes True] (init True 65535)))) = []"
proof -
  have a: "start_schedules two_quakes True (init True 65535)"
    by (simp add: start_schedules_resumeOk two_quakes_def init_def)
  have ne: "timers (run [Start two_quakes True] (init True 65535)) \<noteq> []"
    using end_timer_armed[OF a] by (auto simp: run_def)
  have none: "timers (stop (run [Start two_quakes True] (init True 65535))) = []"
    using stop_clears_voices_and_timers[where ops = "[Start two_quakes True]" and supported = True
        and maxArgs = 65535] by blast
  have "notified (run [Fire 1, Fire 2, Fire 3] (stop (run [Start two_quakes True] (init True 65535))))
          = notified (init True 65535)"
    using none by (simp add: run_def fire_nothing stop_fields notified_start)
  with ne none show ?thesis
    by (simp add: init_def)
qed

section \<open>Stopping, and stopping again\<close>

lemma droneRef_stop_drone:
  "droneRef (stop_drone s) =
     (case (audioCtxRef s, droneRef s) of
        (Some ctx, Some d) \<Rightarrow> Some (d\<lparr>gain := gain d @ fade_out (currentTime ctx) 2.5\<rparr>)
      | _ \<Rightarrow> droneRef s)"
  by (simp add: stop_drone_def Let_def fold_try_stop_fields fade_out_def
      split: option.splits)

lemma droneRef_stop:
  "droneRef (stop s) =
     (case (audioCtxRef s, droneRef s) of
        (Some ctx, Some d) \<Rightarrow> Some (d\<lparr>gain := gain d @ fade_out (currentTime ctx) 2.5\<rparr>)
      | _ \<Rightarrow> droneRef s)"
proof -
  have "droneRef (stop s) = droneRef (stop_drone s)"
    by (simp add: stop_def Let_def clear_visualTimeouts_fields clearTimeout_fields
        fold_try_stop_fields)
  then show ?thesis by (simp add: droneRef_stop_drone)
qed

lemma stop_idle:
  assumes "transientNodesRef s = []" "visualTimeoutsRef s = []"
    "\<not> ref_truthy (endTimeoutRef s)" "\<not> isPlaying s"
    "audioCtxRef s = None \<or> droneRef s = None"
  shows "stop s = s"
  using assms
  by (cases s)
     (auto simp: stop_def stop_drone_def clear_visualTimeouts_def Let_def split: option.splits)

lemma advance_fields:
  "isSupported (advance d s) = isSupported s"
  "isPlaying (advance d s) = isPlaying s"
  "droneRef (advance d s) = droneRef s"
  "endTimeoutRef (advance d s) = endTimeoutRef s"
  "transientNodesRef (advance d s) = transientNodesRef s"
  "visualTimeoutsRef (advance d s) = visualTimeoutsRef s"
  "voices (advance d s) = voices s"
  "timers (advance d s) = timers s"
  "nextTimerId (advance d s) = nextTimerId s"
  "notified (advance d s) = notified s"
  "sources (advance d s) = sources s"
  "audioCtxRef (advance d s) =
     map_option (\<lambda>c. c\<lparr>currentTime := currentTime c + max 0 d\<rparr>) (audioCtxRef s)"
  "argLimit (advance d s) = argLimit s"
  by (simp_all add: advance_def)

lemma not_truthy_after_stop: "\<not> ref_truthy (endTimeoutRef (stop s))"
  by (simp add: stop_fields ref_truthy_def)

lemma second_stop_fields:
  "timers (stop (advance d (stop s))) = timers (stop s)"
  "endTimeoutRef (stop (advance d (stop s))) = endTimeoutRef (stop s)"
  using not_truthy_after_stop[of s]
  by (simp_all add: stop_fields[of "advance d (stop s)"] advance_fields stop_fields(4,5))

text \<open>
  C4, as the code has it. \<^verbatim>\<open>stop\<close> is a total function of the state (the two
  \<^verbatim>\<open>node.stop\<close> loops swallow the errors of the platform), at every state whatever. It
  leaves the playing flag false, \<^verbatim>\<open>transientNodesRef\<close> and \<^verbatim>\<open>visualTimeoutsRef\<close> empty.
  A second \<^verbatim>\<open>stop\<close>, the clock having moved by \<open>d\<close> or not at all, leaves the flag, the
  refs, the timers, the voices and the callbacks made as the first left them, and
  changes nothing at all when there is no context or no drone, as before any \<^verbatim>\<open>start\<close>.
  When there are a context and a drone, each \<^verbatim>\<open>stop\<close>, the second too, cancels the
  scheduled values of the drone gain, pins its current value and ramps it to 0 over
  2.5 seconds: the second call issues a second fade-out ramp.
\<close>

theorem stop_safe_and_repeatable:
  "\<not> isPlaying (stop s) \<and> transientNodesRef (stop s) = [] \<and>
   visualTimeoutsRef (stop s) = [] \<and>
   \<not> isPlaying (stop (advance d (stop s))) \<and>
   transientNodesRef (stop (advance d (stop s))) = [] \<and>
   visualTimeoutsRef (stop (advance d (stop s))) = [] \<and>
   timers (stop (advance d (stop s))) = timers (stop s) \<and>
   endTimeoutRef (stop (advance d (stop s))) = endTimeoutRef (stop s) \<and>
   nextTimerId (stop (advance d (stop s))) = nextTimerId (stop s) \<and>
   notified (stop (advance d (stop s))) = notified (stop s) \<and>
   voices (stop (advance d (stop s))) = voices (stop s) \<and>
   (audioCtxRef s = None \<or> droneRef s = None \<longrightarrow>
      stop (advance d (stop s)) = advance d (stop s)) \<and>
   (\<forall>ctx dr. audioCtxRef s = Some ctx \<and> droneRef s = Some dr \<longrightarrow>
      map_option gain (droneRef (stop s)) =
        Some (gain dr @ fade_out (currentTime ctx) 2.5) \<and>
      map_option gain (droneRef (stop (advance d (stop s)))) =
        Some (gain dr @ fade_out (currentTime ctx) 2.5 @
              fade_out (currentTime ctx + max 0 d) 2.5))"
proof -
  have idle: "stop (advance d (stop s)) = advance d (stop s)"
    if "audioCtxRef s = None \<or> droneRef s = None"
  proof (rule stop_idle)
    show "\<not> ref_truthy (endTimeoutRef (advance d (stop s)))"
      using not_truthy_after_stop[of s] by (simp add: advance_fields)
    show "audioCtxRef (advance d (stop s)) = None \<or> droneRef (advance d (stop s)) = None"
      using that by (auto simp: advance_fields stop_fields droneRef_stop split: option.splits)
  qed (simp_all add: advance_fields stop_fields)
  have ramps: "map_option gain (droneRef (stop s)) =
        Some (gain dr @ fade_out (currentTime ctx) 2.5) \<and>
      map_option gain (droneRef (stop (advance d (stop s)))) =
        Some (gain dr @ fade_out (currentTime ctx) 2.5 @
              fade_out (currentTime ctx + max 0 d) 2.5)"
    if "audioCtxRef s = Some ctx \<and> droneRef s = Some dr" for ctx dr
    using that
    by (simp add: droneRef_stop[of "advance d (stop s)"] advance_fields stop_fields)
       (simp add: droneRef_stop)
  show ?thesis
    using idle ramps second_stop_fields[of d s]
    by (simp add: stop_fields advance_fields)
qed


section \<open>The source nodes across a run\<close>

lemma grows_refl: "grows s s"
  by (simp add: grows_def)

lemma grows_trans:
  assumes "grows s s'" "grows s' s''"
  shows "grows s s''"
proof -
  obtain ys where ys: "sources s' = sources s @ ys"
    using assms(1) by (auto simp: grows_def)
  obtain zs where zs: "sources s'' = sources s' @ zs"
    using assms(2) by (auto simp: grows_def)
  have src: "\<exists>ws. sources s'' = sources s @ ws"
    by (simp add: ys zs)
  have tr: "i \<in> set (transientNodesRef s) \<or> (length (sources s) \<le> i \<and> i < length (sources s''))"
    if i: "i \<in> set (transientNodesRef s'')" for i
  proof -
    from i assms(2) consider "i \<in> set (transientNodesRef s')"
      | "length (sources s') \<le> i" "i < length (sources s'')"
      by (auto simp: grows_def)
    then show ?thesis
    proof cases
      case 1
      with assms(1) have "i \<in> set (transientNodesRef s) \<or>
          (length (sources s) \<le> i \<and> i < length (sources s'))"
        by (auto simp: grows_def)
      then show ?thesis by (auto simp: zs)
    next
      case 2
      then show ?thesis by (simp add: ys)
    qed
  qed
  from src tr assms show ?thesis
    by (simp add: grows_def)
qed

lemma sources_scheduleEventVoice:
  "\<exists>a b. sources (scheduleEventVoice ctx t m la dKm s) = sources s @ [a, b]"
  by (simp add: scheduleEventVoice_def Let_def create_started_def set_stop_def
      getNoiseBuffer_def nth_append list_update_append split: prod.splits)

lemma grows_scheduleEventVoice: "grows s (scheduleEventVoice ctx t m la dKm s)"
  using sources_scheduleEventVoice[of ctx t m la dKm s]
  by (auto simp: grows_def scheduleEventVoice_transient scheduleEventVoice_fields)

lemma grows_schedule_feature: "grows s (schedule_feature ctx cb now mn ts f s)"
proof -
  let ?s1 = "scheduleEventVoice ctx (onset now startOffset mn ts (f_time f)) (f_mag f)
     (fst (snd (f_coordinates f))) (snd (snd (f_coordinates f))) s"
  have "grows ?s1 (schedule_feature ctx cb now mn ts f s)"
    by (simp add: grows_def schedule_feature_def Let_def setTimeout_def split: prod.splits)
  with grows_scheduleEventVoice show ?thesis by (rule grows_trans)
qed

lemma grows_fold:
  "grows s (fold (schedule_feature ctx cb now mn ts) quakes s)"
proof (induction quakes arbitrary: s)
  case Nil
  show ?case by (simp add: grows_refl)
next
  case (Cons f quakes)
  show ?case
    using grows_schedule_feature Cons.IH by (simp, rule grows_trans)
qed

lemma ensureDrone_Some: "droneRef (ensureDrone ctx s) \<noteq> None"
  by (simp add: ensureDrone_def Let_def create_started_def split: option.splits)

lemma ensureDrone_cached: "droneRef s = Some d \<Longrightarrow> ensureDrone ctx s = s"
  by (simp add: ensureDrone_def)

lemma ensureDrone_new:
  assumes "droneRef s = None"
  shows "sources (ensureDrone ctx s) =
           sources s @ replicate 3 \<lparr>startAt = Some (Fin (currentTime ctx)), stopAt = None\<rparr>"
    and "droneRef (ensureDrone ctx s) =
           Some \<lparr>oscs = [length (sources s), Suc (length (sources s)), Suc (Suc (length (sources s)))],
                 gain = [AssignValue (Fin 0)]\<rparr>"
  using assms
  by (simp_all add: ensureDrone_def Let_def create_started_def getReverbBuffer_def
      numeral_3_eq_3)

lemma fade_in_drone_droneRef:
  "droneRef (fade_in_drone ctx s) =
     map_option (\<lambda>d. d\<lparr>gain := gain d @ fade_in (currentTime ctx)\<rparr>)
       (droneRef (ensureDrone ctx s))"
  by (simp add: fade_in_drone_def Let_def fade_in_def BASE_GAIN_def)

lemma schedule_nodes: "grows (fade_in_drone ctx s) (schedule opts quakes ctx s)"
proof (cases "length quakes \<le> argLimit s")
  case True
  let ?s2 = "fade_in_drone ctx s"
  let ?s4 = "schedule_loop opts quakes ctx (Math_min_args (map f_time quakes))
        (Math_max_args (map f_time quakes)) ?s2"
  have g1: "grows ?s2 (clear_visualTimeouts ?s2)"
    by (simp add: grows_def clear_visualTimeouts_fields)
  have g2: "grows (clear_visualTimeouts ?s2) ?s4"
    unfolding schedule_loop_def Let_def by (rule grows_fold)
  have g3: "grows ?s4 (arm_end_timer opts ctx ?s4)"
    by (simp add: grows_def arm_end_timer_fields)
  from g1 g2 g3 show ?thesis
    unfolding schedule_within[OF True] by (blast intro: grows_trans)
next
  case False
  then show ?thesis by (simp add: schedule_beyond grows_refl)
qed


lemma start_effect:
  assumes "start_schedules opts resumeOk s"
  shows "\<exists>ctx ys.
           ctxState ctx = Running \<and> currentTime ctx = clockNow s \<and>
           audioCtxRef (start opts resumeOk s) = Some ctx \<and>
           droneRef (start opts resumeOk s) =
             Some (case droneRef s of
                     None \<Rightarrow>
                       \<lparr>oscs = [length (sources s), Suc (length (sources s)),
                                Suc (Suc (length (sources s)))],
                         gain = AssignValue (Fin 0) # fade_in (clockNow s)\<rparr>
                   | Some d \<Rightarrow> d\<lparr>gain := gain d @ fade_in (clockNow s)\<rparr>) \<and>
           sources (start opts resumeOk s) =
             sources s @
             (if droneRef s = None
              then replicate 3 \<lparr>startAt = Some (Fin (clockNow s)), stopAt = None\<rparr> else []) @ ys \<and>
           (\<forall>i \<in> set (transientNodesRef (start opts resumeOk s)).
              i \<in> set (transientNodesRef s) \<or>
              (length (sources s) + (if droneRef s = None then 3 else 0) \<le> i \<and>
               i < length (sources (start opts resumeOk s))))"
proof -
  obtain quakes where q: "features opts = Some quakes"
    using assms by (auto simp: start_schedules_def split: option.splits)
  obtain ctx where ctx: "ctxState ctx = Running" "currentTime ctx = clockNow s"
    "start opts resumeOk s = schedule opts quakes ctx (s\<lparr>audioCtxRef := Some ctx\<rparr>)"
    using start_eq_schedule[OF q assms] by blast
  let ?s0 = "s\<lparr>audioCtxRef := Some ctx\<rparr>"
  let ?s2 = "fade_in_drone ctx ?s0"
  have g: "grows ?s2 (start opts resumeOk s)"
    unfolding ctx(3) by (rule schedule_nodes)
  then obtain ys where ys: "sources (start opts resumeOk s) = sources ?s2 @ ys"
    by (auto simp: grows_def)
  have src: "sources ?s2 = sources s @
             (if droneRef s = None
              then replicate 3 \<lparr>startAt = Some (Fin (clockNow s)), stopAt = None\<rparr> else [])"
    using ensureDrone_new(1)[of ?s0 ctx] ensureDrone_cached[of ?s0 _ ctx]
    by (cases "droneRef s") (simp_all add: ctx(2) fade_in_drone_fields)
  have dr: "droneRef ?s2 =
             Some (case droneRef s of
                     None \<Rightarrow>
                       \<lparr>oscs = [length (sources s), Suc (length (sources s)),
                                Suc (Suc (length (sources s)))],
                         gain = AssignValue (Fin 0) # fade_in (clockNow s)\<rparr>
                   | Some d \<Rightarrow> d\<lparr>gain := gain d @ fade_in (clockNow s)\<rparr>)"
    using ensureDrone_new(2)[of ?s0 ctx] ensureDrone_cached[of ?s0 _ ctx]
    by (cases "droneRef s") (simp_all add: ctx(2) fade_in_drone_droneRef)
  have tn: "transientNodesRef ?s2 = transientNodesRef s" "audioCtxRef ?s2 = Some ctx"
    by (simp_all add: fade_in_drone_fields)
  have tr: "\<forall>i \<in> set (transientNodesRef (start opts resumeOk s)).
              i \<in> set (transientNodesRef s) \<or>
              (length (sources s) + (if droneRef s = None then 3 else 0) \<le> i \<and>
               i < length (sources (start opts resumeOk s)))"
    using g unfolding grows_def tn src by auto
  have "audioCtxRef (start opts resumeOk s) = Some ctx"
    "droneRef (start opts resumeOk s) = droneRef ?s2"
    using g unfolding grows_def tn by simp_all
  with ctx(1,2) dr ys src tr show ?thesis
    by (intro exI[of _ ctx] exI[of _ ys]) simp
qed

lemma nodes_wf_start_schedules:
  assumes "nodes_wf s" "start_schedules opts resumeOk s"
  shows "nodes_wf (start opts resumeOk s)"
proof -
  let ?r = "start opts resumeOk s"
  obtain ctx ys where e:
    "currentTime ctx = clockNow s" "audioCtxRef ?r = Some ctx"
    "droneRef ?r =
             Some (case droneRef s of
                     None \<Rightarrow>
                       \<lparr>oscs = [length (sources s), Suc (length (sources s)),
                                Suc (Suc (length (sources s)))],
                         gain = AssignValue (Fin 0) # fade_in (clockNow s)\<rparr>
                   | Some d \<Rightarrow> d\<lparr>gain := gain d @ fade_in (clockNow s)\<rparr>)"
    "sources ?r = sources s @
             (if droneRef s = None
              then replicate 3 \<lparr>startAt = Some (Fin (clockNow s)), stopAt = None\<rparr> else []) @ ys"
    "\<forall>i \<in> set (transientNodesRef ?r).
              i \<in> set (transientNodesRef s) \<or>
              (length (sources s) + (if droneRef s = None then 3 else 0) \<le> i \<and>
               i < length (sources ?r))"
    using start_effect[OF assms(2)] by blast
  have clock: "0 \<le> clockNow s"
    using assms(1) by (auto simp: nodes_wf_def clockNow_def split: option.splits)
  have old_t: "\<forall>i \<in> set (transientNodesRef s). i < length (sources s)"
    using assms(1) by (simp add: nodes_wf_def)
  have len: "length (sources s) \<le> length (sources ?r)"
    by (simp add: e(4))
  have t: "\<forall>i \<in> set (transientNodesRef ?r). i < length (sources ?r)"
  proof
    fix i assume "i \<in> set (transientNodesRef ?r)"
    with e(5) have "i \<in> set (transientNodesRef s) \<or> i < length (sources ?r)"
      by blast
    with old_t len show "i < length (sources ?r)"
      by (metis less_le_trans)
  qed
  show ?thesis
  proof (cases "droneRef s")
    case None
    have new_t: "\<forall>i \<in> set (transientNodesRef ?r). i < length (sources s) \<or> length (sources s) + 3 \<le> i"
    proof
      fix i assume "i \<in> set (transientNodesRef ?r)"
      with e(5) None have "i \<in> set (transientNodesRef s) \<or> length (sources s) + 3 \<le> i"
        by auto
      with old_t show "i < length (sources s) \<or> length (sources s) + 3 \<le> i"
        by blast
    qed
    have src: "sources ?r = sources s @
        replicate 3 \<lparr>startAt = Some (Fin (clockNow s)), stopAt = None\<rparr> @ ys"
      using e(4) None by simp
    have "i < length (sources ?r) \<and> startAt (sources ?r ! i) \<noteq> None \<and>
            i \<notin> set (transientNodesRef ?r)"
      if "i \<in> {length (sources s), Suc (length (sources s)), Suc (Suc (length (sources s)))}" for i
    proof -
      from that obtain k where k: "i = length (sources s) + k" "k < 3"
        by (auto intro: that[of 0] that[of 1] that[of 2])
      have "sources ?r ! i = \<lparr>startAt = Some (Fin (clockNow s)), stopAt = None\<rparr>"
        using k by (simp add: src nth_append)
      moreover have "i < length (sources ?r)"
        using k by (simp add: src)
      moreover have "i \<notin> set (transientNodesRef ?r)"
        using new_t k by fastforce
      ultimately show ?thesis by simp
    qed
    with t clock None show ?thesis
      by (simp add: nodes_wf_def e(1,2,3))
  next
    case (Some d)
    have old_d: "\<forall>i \<in> set (oscs d). i < length (sources s) \<and> startAt (sources s ! i) \<noteq> None \<and>
        i \<notin> set (transientNodesRef s)"
      using assms(1) Some by (simp add: nodes_wf_def)
    have src: "sources ?r = sources s @ ys"
      using e(4) Some by simp
    have "i < length (sources ?r) \<and> startAt (sources ?r ! i) \<noteq> None \<and>
            i \<notin> set (transientNodesRef ?r)"
      if "i \<in> set (oscs d)" for i
    proof -
      from that old_d have i: "i < length (sources s)" "startAt (sources s ! i) \<noteq> None"
        "i \<notin> set (transientNodesRef s)"
        by auto
      have "i \<notin> set (transientNodesRef ?r)"
        using e(5) i(1,3) Some by fastforce
      with i show ?thesis
        by (simp add: src nth_append)
    qed
    with t clock Some show ?thesis
      by (simp add: nodes_wf_def e(1,2,3))
  qed
qed


lemma try_stop_other: "i \<noteq> j \<Longrightarrow> sources (try_stop j w s) ! i = sources s ! i"
  by (simp add: try_stop_def source_stop_def set_stop_def)

lemma try_stop_keeps:
  "stopAt (sources s ! i) = Some w \<Longrightarrow> stopAt (sources (try_stop j w s) ! i) = Some w"
  by (cases "i = j") (auto simp: try_stop_def source_stop_def set_stop_def)

lemma try_stop_hit:
  assumes "i < length (sources s)" "startAt (sources s ! i) \<noteq> None"
  shows "stopAt (sources (try_stop i w s) ! i) = Some w"
  using assms by (auto simp: try_stop_def source_stop_def set_stop_def)

lemma startAt_nth_try_stop:
  "startAt (sources (try_stop j w s) ! i) = startAt (sources s ! i)"
  by (cases "i = j") (auto simp: try_stop_def source_stop_def set_stop_def)

lemma fold_try_stop_other:
  "i \<notin> set ns \<Longrightarrow> sources (fold (\<lambda>j. try_stop j w) ns s) ! i = sources s ! i"
  by (induction ns arbitrary: s) (auto simp: try_stop_other)

lemma fold_try_stop_keeps:
  "stopAt (sources s ! i) = Some w \<Longrightarrow>
   stopAt (sources (fold (\<lambda>j. try_stop j w) ns s) ! i) = Some w"
  by (induction ns arbitrary: s) (auto simp: try_stop_keeps)

lemma fold_try_stop_hit:
  assumes "i \<in> set ns" "i < length (sources s)" "startAt (sources s ! i) \<noteq> None"
  shows "stopAt (sources (fold (\<lambda>j. try_stop j w) ns s) ! i) = Some w"
  using assms
proof (induction ns arbitrary: s)
  case Nil
  then show ?case by simp
next
  case (Cons j ns)
  show ?case
  proof (cases "i = j")
    case True
    have "stopAt (sources (try_stop j w s) ! i) = Some w"
      using try_stop_hit[of i s w] Cons.prems True by simp
    then show ?thesis
      by (simp add: fold_try_stop_keeps)
  next
    case False
    with Cons.prems have "i \<in> set ns" by simp
    moreover have "i < length (sources (try_stop j w s))"
      using Cons.prems by (simp add: try_stop_fields)
    moreover have "startAt (sources (try_stop j w s) ! i) \<noteq> None"
      using Cons.prems by (simp add: startAt_nth_try_stop)
    ultimately show ?thesis
      using Cons.IH[of "try_stop j w s"] by simp
  qed
qed

lemma sources_stop:
  "sources (stop s) =
     sources (fold (\<lambda>node. try_stop node (Fin 0)) (transientNodesRef s) (stop_drone s))"
  by (simp add: stop_def Let_def clear_visualTimeouts_def clearTimeout_fields
      fold_clearTimeout_fields stop_drone_fields)

lemma stop_hits_drone:
  assumes "nodes_wf s" "audioCtxRef s = Some ctx" "droneRef s = Some d" "i \<in> set (oscs d)"
  shows "stopAt (sources (stop s) ! i) = Some (Fin (currentTime ctx + 3))"
    and "startAt (sources (stop s) ! i) = startAt (sources s ! i)"
proof -
  have wf: "i < length (sources s)" "startAt (sources s ! i) \<noteq> None"
    "i \<notin> set (transientNodesRef s)" "0 \<le> currentTime ctx"
    using assms by (auto simp: nodes_wf_def)
  let ?s1 = "s\<lparr>droneRef := Some (d\<lparr>gain := gain d @
                      [CancelScheduledValues (Fin (currentTime ctx)),
                       SetCurrentValueAtTime (Fin (currentTime ctx)),
                       LinearRampToValueAtTime (Fin 0) (Fin (currentTime ctx + 2.5))]\<rparr>)\<rparr>"
  have sd: "stop_drone s = fold (\<lambda>osc. try_stop osc (Fin (currentTime ctx + 3))) (oscs d) ?s1"
    using assms(2,3) by (simp add: stop_drone_def Let_def)
  have "stopAt (sources (stop_drone s) ! i) = Some (Fin (currentTime ctx + 3))"
    unfolding sd using assms(4) wf by (intro fold_try_stop_hit) simp_all
  then show "stopAt (sources (stop s) ! i) = Some (Fin (currentTime ctx + 3))"
    using wf(3) by (simp add: sources_stop fold_try_stop_other stop_drone_fields)
  have "i < length (map startAt (sources s))"
    using wf(1) by simp
  then show "startAt (sources (stop s) ! i) = startAt (sources s ! i)"
    using stop_fields(10)[of s] wf(1)
    by (metis length_map nth_map stop_fields(9))
qed

lemma nodes_wf_init: "nodes_wf (init supported maxArgs)"
  by (simp add: nodes_wf_def init_def)

subsection \<open>The sample run\<close>

lemma first_start:
  "audioCtxRef (start two_quakes True (init True 65535)) =
     Some \<lparr>ctxState = Running, currentTime = 0\<rparr>"
  "droneRef (start two_quakes True (init True 65535)) =
     Some \<lparr>oscs = [0, 1, 2], gain = AssignValue (Fin 0) # fade_in 0\<rparr>"
  "stopAt (sources (start two_quakes True (init True 65535)) ! 0) = None"
  "nodes_wf (start two_quakes True (init True 65535))"
  "startAt (sources (start two_quakes True (init True 65535)) ! 0) = Some (Fin 0)"
proof -
  have a: "start_schedules two_quakes True (init True 65535)"
    by (simp add: start_schedules_resumeOk two_quakes_def init_def)
  have i: "droneRef (init True 65535) = None" "sources (init True 65535) = []"
    "clockNow (init True 65535) = 0"
    by (simp_all add: init_def clockNow_def)
  obtain ctx ys where e: "ctxState ctx = Running" "currentTime ctx = 0"
    "audioCtxRef (start two_quakes True (init True 65535)) = Some ctx"
    "droneRef (start two_quakes True (init True 65535)) =
       Some \<lparr>oscs = [0, 1, 2], gain = AssignValue (Fin 0) # fade_in 0\<rparr>"
    "sources (start two_quakes True (init True 65535)) =
       replicate 3 \<lparr>startAt = Some (Fin 0), stopAt = None\<rparr> @ ys"
    using start_effect[OF a] unfolding i by auto
  show "audioCtxRef (start two_quakes True (init True 65535)) =
          Some \<lparr>ctxState = Running, currentTime = 0\<rparr>"
    using e(1,2,3) by (cases ctx) simp
  show "droneRef (start two_quakes True (init True 65535)) =
     Some \<lparr>oscs = [0, 1, 2], gain = AssignValue (Fin 0) # fade_in 0\<rparr>"
    by (rule e(4))
  show "stopAt (sources (start two_quakes True (init True 65535)) ! 0) = None"
    by (simp add: e(5) numeral_3_eq_3)
  show "nodes_wf (start two_quakes True (init True 65535))"
    using nodes_wf_init a by (rule nodes_wf_start_schedules)
  show "startAt (sources (start two_quakes True (init True 65535)) ! 0) = Some (Fin 0)"
    by (simp add: e(5) numeral_3_eq_3)
qed

lemma first_stop:
  "audioCtxRef (stop (start two_quakes True (init True 65535))) =
     Some \<lparr>ctxState = Running, currentTime = 0\<rparr>"
  "droneRef (stop (start two_quakes True (init True 65535))) =
     Some \<lparr>oscs = [0, 1, 2], gain = AssignValue (Fin 0) # fade_in 0 @ fade_out 0 2.5\<rparr>"
  "stopAt (sources (stop (start two_quakes True (init True 65535))) ! 0) = Some (Fin 3)"
  "startAt (sources (stop (start two_quakes True (init True 65535))) ! 0) = Some (Fin 0)"
  "0 < length (sources (stop (start two_quakes True (init True 65535))))"
  "start_schedules two_quakes True (stop (start two_quakes True (init True 65535)))"
proof -
  let ?s1 = "start two_quakes True (init True 65535)"
  show "audioCtxRef (stop ?s1) = Some \<lparr>ctxState = Running, currentTime = 0\<rparr>"
    by (simp add: stop_fields first_start)
  show "droneRef (stop ?s1) =
     Some \<lparr>oscs = [0, 1, 2], gain = AssignValue (Fin 0) # fade_in 0 @ fade_out 0 2.5\<rparr>"
    by (simp add: droneRef_stop first_start)
  show "stopAt (sources (stop ?s1) ! 0) = Some (Fin 3)"
    using stop_hits_drone(1)[OF first_start(4) first_start(1) first_start(2), of 0] by simp
  show "startAt (sources (stop ?s1) ! 0) = Some (Fin 0)"
    using stop_hits_drone(2)[OF first_start(4) first_start(1) first_start(2), of 0]
    by (simp add: first_start)
  show "0 < length (sources (stop ?s1))"
    using first_start(4) by (simp add: nodes_wf_def first_start(2) stop_fields)
  show "start_schedules two_quakes True (stop ?s1)"
    by (simp add: start_schedules_resumeOk stop_fields start_platform two_quakes_def init_def)
qed

lemma restart:
  "droneRef (start two_quakes True (stop (start two_quakes True (init True 65535)))) =
     Some \<lparr>oscs = [0, 1, 2],
           gain = AssignValue (Fin 0) # fade_in 0 @ fade_out 0 2.5 @ fade_in 0\<rparr>"
  "sources (start two_quakes True (stop (start two_quakes True (init True 65535)))) ! 0 =
     sources (stop (start two_quakes True (init True 65535))) ! 0"
proof -
  let ?s2 = "stop (start two_quakes True (init True 65535))"
  have c: "clockNow ?s2 = 0"
    by (simp add: clockNow_def first_stop)
  obtain ys where e:
    "droneRef (start two_quakes True ?s2) =
       Some \<lparr>oscs = [0, 1, 2],
             gain = AssignValue (Fin 0) # fade_in 0 @ fade_out 0 2.5 @ fade_in 0\<rparr>"
    "sources (start two_quakes True ?s2) = sources ?s2 @ ys"
    using start_effect[OF first_stop(6)] unfolding c first_stop(2) by auto
  show "droneRef (start two_quakes True ?s2) =
     Some \<lparr>oscs = [0, 1, 2],
           gain = AssignValue (Fin 0) # fade_in 0 @ fade_out 0 2.5 @ fade_in 0\<rparr>"
    by (rule e(1))
  show "sources (start two_quakes True ?s2) ! 0 = sources ?s2 ! 0"
    using first_stop(5) by (simp add: e(2) nth_append)
qed

lemma first_start_timers:
  "map (\<lambda>t. (fst t, snd (snd t))) (timers (start two_quakes True (init True 65535))) =
     [(1, OnEvent quake_a), (2, OnEvent quake_b), (3, EndOfPlayback)]"
proof -
  have a: "start_schedules two_quakes True (init True 65535)"
    by (simp add: start_schedules_resumeOk two_quakes_def init_def)
  have q: "features two_quakes = Some [quake_a, quake_b]" "onEvent two_quakes"
    by (simp_all add: two_quakes_def)
  obtain ctx where ctx:
    "start two_quakes True (init True 65535) =
       schedule two_quakes [quake_a, quake_b] ctx ((init True 65535)\<lparr>audioCtxRef := Some ctx\<rparr>)"
    using start_eq_schedule[OF q(1) a] by blast
  let ?s0 = "(init True 65535)\<lparr>audioCtxRef := Some ctx\<rparr>"
  have w: "length [quake_a, quake_b] \<le> argLimit ?s0"
    by (simp add: init_def)
  define s3 where "s3 = clear_visualTimeouts (fade_in_drone ctx ?s0)"
  have s3: "timers s3 = []" "nextTimerId s3 = 1" "endTimeoutRef s3 = None"
    by (simp_all add: s3_def clear_visualTimeouts_fields fade_in_drone_fields init_def)
  define s4 where "s4 = schedule_loop two_quakes [quake_a, quake_b] ctx
     (Math_min_args (map f_time [quake_a, quake_b])) (Math_max_args (map f_time [quake_a, quake_b]))
     (fade_in_drone ctx ?s0)"
  have s4: "map (\<lambda>t. (fst t, snd (snd t))) (timers s4) = [(1, OnEvent quake_a), (2, OnEvent quake_b)]"
    "nextTimerId s4 = 3" "endTimeoutRef s4 = None"
    unfolding s4_def schedule_loop_def Let_def s3_def[symmetric]
    by (simp_all add: q(2) timers_schedule_feature s3 schedule_feature_fields)
  show ?thesis
    unfolding ctx schedule_within[OF w] s4_def[symmetric] arm_end_timer_eq
    by (simp add: s4 setTimeout_def ref_truthy_def)
qed

text \<open>
  C8 is not what the code does: \<^verbatim>\<open>stop\<close> calls \<^verbatim>\<open>osc.stop(now + 3)\<close> on the oscillators
  of the drone and leaves the drone in \<^verbatim>\<open>droneRef\<close>, so the next \<^verbatim>\<open>start\<close> gets the
  same drone from \<^verbatim>\<open>ensureDrone\<close> and fades in oscillators that have been stopped. In
  the sample run the first oscillator of the drone has no stop time after \<^verbatim>\<open>start\<close>,
  the stop time 3 after \<^verbatim>\<open>stop\<close>, the hook still mounted, and after a second \<^verbatim>\<open>start\<close>
  the drone of the ref is still the one of the oscillators 0, 1 and 2, a new fade-in
  written on its gain, its first oscillator started at 0 as before and stopped at 3.
\<close>

theorem drone_stopped_then_reused:
  "droneRef (start two_quakes True (init True 65535)) =
     Some \<lparr>oscs = [0, 1, 2], gain = AssignValue (Fin 0) # fade_in 0\<rparr> \<and>
   startAt (sources (start two_quakes True (init True 65535)) ! 0) = Some (Fin 0) \<and>
   stopAt (sources (start two_quakes True (init True 65535)) ! 0) = None \<and>
   stopAt (sources (stop (start two_quakes True (init True 65535))) ! 0) = Some (Fin 3) \<and>
   droneRef (start two_quakes True (stop (start two_quakes True (init True 65535)))) =
     Some \<lparr>oscs = [0, 1, 2],
           gain = AssignValue (Fin 0) # fade_in 0 @ fade_out 0 2.5 @ fade_in 0\<rparr> \<and>
   startAt (sources (start two_quakes True (stop (start two_quakes True (init True 65535)))) ! 0)
     = Some (Fin 0) \<and>
   stopAt (sources (start two_quakes True (stop (start two_quakes True (init True 65535)))) ! 0)
     = Some (Fin 3)"
  by (simp add: first_start first_stop restart)

text \<open>
  C10 as stated fails: a \<^verbatim>\<open>start\<close> that finds no event returns at once. In the sample
  run the first \<^verbatim>\<open>start\<close> leaves the visual timers 1 and 2 and the end-of-playback
  timer 3 pending; a second \<^verbatim>\<open>start\<close>, called with no events, leaves all three pending,
  so the pending visual timers are not those of the most recent call.
\<close>

theorem start_without_events_cancels_nothing:
  "map (\<lambda>t. (fst t, snd (snd t))) (timers (start two_quakes True (init True 65535))) =
     [(1, OnEvent quake_a), (2, OnEvent quake_b), (3, EndOfPlayback)] \<and>
   timers (start no_quakes True (start two_quakes True (init True 65535))) =
     timers (start two_quakes True (init True 65535))"
  by (simp add: first_start_timers) (simp add: start_def no_quakes_def)

text \<open>
  C4 as stated fails: in the sample run the drone gain has one fade-out ramp after the
  first \<^verbatim>\<open>stop\<close> and two after the second.
\<close>

theorem second_stop_ramps_again:
  "map_option gain (droneRef (stop (start two_quakes True (init True 65535)))) =
     Some [AssignValue (Fin 0),
           CancelScheduledValues (Fin 0), SetValueAtTime (Fin 0) (Fin 0),
           LinearRampToValueAtTime (Fin 0.06) (Fin 5),
           CancelScheduledValues (Fin 0), SetCurrentValueAtTime (Fin 0),
           LinearRampToValueAtTime (Fin 0) (Fin 2.5)] \<and>
   map_option gain (droneRef (stop (stop (start two_quakes True (init True 65535))))) =
     Some [AssignValue (Fin 0),
           CancelScheduledValues (Fin 0), SetValueAtTime (Fin 0) (Fin 0),
           LinearRampToValueAtTime (Fin 0.06) (Fin 5),
           CancelScheduledValues (Fin 0), SetCurrentValueAtTime (Fin 0),
           LinearRampToValueAtTime (Fin 0) (Fin 2.5),
           CancelScheduledValues (Fin 0), SetCurrentValueAtTime (Fin 0),
           LinearRampToValueAtTime (Fin 0) (Fin 2.5)]"
  by (simp add: droneRef_stop stop_fields first_start fade_in_def fade_out_def)

theorem stop_safe_and_repeatable_witness:
  "audioCtxRef (start two_quakes True (init True 65535)) =
     Some \<lparr>ctxState = Running, currentTime = 0\<rparr> \<and>
   droneRef (start two_quakes True (init True 65535)) =
     Some \<lparr>oscs = [0, 1, 2], gain = AssignValue (Fin 0) # fade_in 0\<rparr> \<and>
   map_option gain (droneRef (stop (advance 1 (stop (start two_quakes True (init True 65535)))))) =
     Some (AssignValue (Fin 0) # fade_in 0 @ fade_out 0 2.5 @ fade_out 1 2.5) \<and>
   audioCtxRef (init True 65535) = None \<and>
   stop (advance 1 (stop (init True 65535))) = advance 1 (stop (init True 65535))"
  using stop_safe_and_repeatable[of "start two_quakes True (init True 65535)" 1]
    stop_safe_and_repeatable[of "init True 65535" 1]
  by (simp add: first_start) (simp add: init_def)

end
